theory Spec2Isabelle
  imports Main
begin

section \<open>The Qt request data used by \<open>src/core/network.cpp\<close>\<close>

text \<open>
  The program is written against Qt's network classes. Their data is modelled as far as
  the program reads or writes it. Pointers are natural numbers, \<open>0\<close> being \<open>NULL\<close>;
  a \<open>QUrl\<close> and a \<open>QByteArray\<close> are strings.
\<close>

type_synonym QUrl = string
type_synonym pointer = nat

text \<open>\<open>QNetworkAccessManager::Operation\<close>.\<close>

datatype Operation =
  HeadOperation | GetOperation | PutOperation | PostOperation | DeleteOperation
  | CustomOperation

text \<open>\<open>QNetworkRequest::KnownHeaders\<close>.\<close>

datatype KnownHeaders =
  ContentTypeHeader | ContentLengthHeader | LocationHeader | LastModifiedHeader
  | CookieHeader | SetCookieHeader

text \<open>\<open>QNetworkRequest::Attribute\<close>.\<close>

datatype Attribute =
  HttpStatusCodeAttribute | HttpReasonPhraseAttribute | RedirectionTargetAttribute
  | ConnectionEncryptedAttribute | CacheLoadControlAttribute | CacheSaveControlAttribute
  | SourceIsFromCacheAttribute | DoNotBufferUploadDataAttribute
  | HttpPipeliningAllowedAttribute | HttpPipeliningWasUsedAttribute

text \<open>
  \<open>QNetworkRequest::CacheLoadControl\<close>, with the integer value of each enumerator: the
  program compares the attribute's \<open>toInt()\<close> with \<open>PreferNetwork\<close>.
\<close>

datatype CacheLoadControl = AlwaysNetwork | PreferNetwork | PreferCache | AlwaysCache

fun CacheLoadControl_value :: "CacheLoadControl \<Rightarrow> int" where
  "CacheLoadControl_value AlwaysNetwork = 0"
| "CacheLoadControl_value PreferNetwork = 1"
| "CacheLoadControl_value PreferCache = 2"
| "CacheLoadControl_value AlwaysCache = 3"

text \<open>
  A \<open>QVariant\<close> held by an attribute: invalid (the attribute is unset), an \<open>int\<close> or a
  \<open>QUrl\<close>. \<open>toInt()\<close> of an invalid variant and of a URL is \<open>0\<close>.
\<close>

datatype QVariant = Invalid | VInt int | VUrl QUrl

fun isValid :: "QVariant \<Rightarrow> bool" where
  "isValid Invalid = False"
| "isValid (VInt i) = True"
| "isValid (VUrl u) = True"

fun toInt :: "QVariant \<Rightarrow> int" where
  "toInt Invalid = 0"
| "toInt (VInt i) = i"
| "toInt (VUrl u) = 0"

fun toUrl :: "QVariant \<Rightarrow> QUrl" where
  "toUrl (VUrl u) = u"
| "toUrl Invalid = []"
| "toUrl (VInt i) = []"

text \<open>
  \<open>QNetworkRequest\<close>: the URL, the raw headers (header name to value; a name stands for
  itself up to letter case, as Qt compares header names) and the attributes (an unset
  attribute reads as the invalid variant). Whatever else a request carries (SSL
  configuration, priority, originating object) is the record's extension.
\<close>

record QNetworkRequest =
  url :: QUrl
  rawHeaders :: "string \<rightharpoonup> string"
  attributes :: "Attribute \<Rightarrow> QVariant"

definition setUrl :: "QUrl \<Rightarrow> 'a QNetworkRequest_scheme \<Rightarrow> 'a QNetworkRequest_scheme" where
  "setUrl u r = r\<lparr>url := u\<rparr>"

definition setRawHeader ::
  "string \<Rightarrow> string \<Rightarrow> 'a QNetworkRequest_scheme \<Rightarrow> 'a QNetworkRequest_scheme" where
  "setRawHeader name v r = r\<lparr>rawHeaders := (rawHeaders r)(name \<mapsto> v)\<rparr>"

text \<open>The raw header name of a known header.\<close>

fun headerName :: "KnownHeaders \<Rightarrow> string" where
  "headerName ContentTypeHeader = ''Content-Type''"
| "headerName ContentLengthHeader = ''Content-Length''"
| "headerName LocationHeader = ''Location''"
| "headerName LastModifiedHeader = ''Last-Modified''"
| "headerName CookieHeader = ''Cookie''"
| "headerName SetCookieHeader = ''Set-Cookie''"

text \<open>
  \<open>header(h)\<close> and \<open>setHeader(h, text)\<close>. The program only asks whether the variant
  returned by \<open>header\<close> is valid and only stores a text: the variant of a header is an
  option, \<open>None\<close> being the invalid one.
\<close>

definition header :: "'a QNetworkRequest_scheme \<Rightarrow> KnownHeaders \<Rightarrow> string option" where
  "header r h = rawHeaders r (headerName h)"

definition setHeader ::
  "KnownHeaders \<Rightarrow> string \<Rightarrow> 'a QNetworkRequest_scheme \<Rightarrow> 'a QNetworkRequest_scheme" where
  "setHeader h v r = setRawHeader (headerName h) v r"

definition attribute :: "'a QNetworkRequest_scheme \<Rightarrow> Attribute \<Rightarrow> QVariant" where
  "attribute r a = attributes r a"

definition setAttribute ::
  "Attribute \<Rightarrow> QVariant \<Rightarrow> 'a QNetworkRequest_scheme \<Rightarrow> 'a QNetworkRequest_scheme" where
  "setAttribute a v r = r\<lparr>attributes := (attributes r)(a := v)\<rparr>"

text \<open>
  \<open>QNetworkReply\<close>: the operation and request it was created for, its URL, the manager
  that created it, the attributes of the response (all invalid until the response
  arrives), whether it has finished and whether \<open>deleteLater()\<close> was called on it.
\<close>

record 'a QNetworkReply =
  operation :: Operation
  request :: "'a QNetworkRequest_scheme"
  reply_url :: QUrl
  manager :: pointer
  outgoingData :: pointer
  reply_attributes :: "Attribute \<Rightarrow> QVariant"
  isFinished :: bool
  deleteLater :: bool

text \<open>
  The base class's \<open>QNetworkAccessManager::createRequest\<close>: a new, running reply for
  the operation, request and data it is given.
\<close>

definition QNetworkAccessManager_createRequest ::
  "pointer \<Rightarrow> Operation \<Rightarrow> 'a QNetworkRequest_scheme \<Rightarrow> pointer \<Rightarrow> 'a QNetworkReply" where
  "QNetworkAccessManager_createRequest this op req data =
     \<lparr>operation = op, request = req, reply_url = url req, manager = this,
      outgoingData = data, reply_attributes = (\<lambda>a. Invalid), isFinished = False,
      deleteLater = False\<rparr>"

section \<open>\<open>NetworkAccessManager::createRequest\<close>\<close>

text \<open>
  \<open>QCoreApplication::applicationName()\<close> and \<open>applicationVersion()\<close> are process-wide
  strings; they are the parameters \<open>appName\<close> and \<open>appVersion\<close>.
  \<open>QString("%1 %2").arg(a, b)\<close> is \<open>a\<close>, a space, \<open>b\<close>.
\<close>

definition user_agent :: "string \<Rightarrow> string \<Rightarrow> string" where
  "user_agent appName appVersion = appName @ '' '' @ appVersion"

text \<open>The local \<open>new_request\<close> as it stands at the \<open>return\<close> (line 107).\<close>

definition new_request ::
  "string \<Rightarrow> string \<Rightarrow> Operation \<Rightarrow> 'a QNetworkRequest_scheme \<Rightarrow> 'a QNetworkRequest_scheme"
  where
  "new_request appName appVersion op req =
     (let r1 = setRawHeader ''User-Agent'' (user_agent appName appVersion) req;
          r2 = (if op = PostOperation \<and> header r1 ContentTypeHeader = None
                then setHeader ContentTypeHeader ''application/x-www-form-urlencoded'' r1
                else r1)
      in if toInt (attribute req CacheLoadControlAttribute)
              = CacheLoadControl_value PreferNetwork
         then setAttribute CacheLoadControlAttribute
                (VInt (CacheLoadControl_value PreferCache)) r2
         else r2)"

definition createRequest ::
  "string \<Rightarrow> string \<Rightarrow> pointer \<Rightarrow> Operation \<Rightarrow> 'a QNetworkRequest_scheme \<Rightarrow> pointer
     \<Rightarrow> 'a QNetworkReply" where
  "createRequest appName appVersion this op req data =
     QNetworkAccessManager_createRequest this op
       (new_request appName appVersion op req) data"

section \<open>\<open>NetworkTimeouts\<close>\<close>

text \<open>
  \<open>QMap<QNetworkReply*, int>\<close> as an association list with one pair for each key.
  \<open>key(v)\<close> is the first key, in the map's ascending key order, that holds \<open>v\<close>, and a
  default-constructed key (\<open>NULL\<close>) when no key holds it.
\<close>

type_synonym QMap = "(pointer \<times> int) list"

definition QMap_contains :: "QMap \<Rightarrow> pointer \<Rightarrow> bool" where
  "QMap_contains m k = (map_of m k \<noteq> None)"

definition QMap_remove :: "pointer \<Rightarrow> QMap \<Rightarrow> QMap" where
  "QMap_remove k m = filter (\<lambda>p. fst p \<noteq> k) m"

definition QMap_insert :: "pointer \<Rightarrow> int \<Rightarrow> QMap \<Rightarrow> QMap" where
  "QMap_insert k v m = (k, v) # QMap_remove k m"

definition QMap_take :: "pointer \<Rightarrow> QMap \<Rightarrow> int \<times> QMap" where
  "QMap_take k m = (case map_of m k of None \<Rightarrow> (0, m) | Some v \<Rightarrow> (v, QMap_remove k m))"

definition QMap_key :: "QMap \<Rightarrow> int \<Rightarrow> pointer" where
  "QMap_key m v =
     (case map fst (filter (\<lambda>p. snd p = v) m) of [] \<Rightarrow> 0 | k # ks \<Rightarrow> fold min ks k)"

text \<open>The two signals of a reply that the supervisor connects to its slot.\<close>

datatype Signal = SIGNAL_destroyed | SIGNAL_finished

text \<open>
  The supervisor's two members \<open>timeout_msec_\<close> and \<open>timers_\<close> (an Isabelle name cannot
  end with an underscore), and after them what the Qt runtime holds for it: the
  identifiers of its running timers, the connections from a reply's signal to the slot
  \<open>NetworkTimeouts::ReplyFinished\<close>, and the reply objects that exist. Of a reply the
  supervisor's behaviour depends only on whether it has finished; the object also counts
  the \<open>abort()\<close> calls made on it.
\<close>

record NetworkTimeouts =
  timeout_msec :: int
  timers :: QMap

record ReplyObject =
  has_finished :: bool
  abort_calls :: nat

record World = NetworkTimeouts +
  qtimers :: "int list"
  connections :: "(pointer \<times> Signal) list"
  replies :: "pointer \<rightharpoonup> ReplyObject"

text \<open>The constructor, in a runtime with no reply yet.\<close>

definition NetworkTimeouts_new :: "int \<Rightarrow> World" where
  "NetworkTimeouts_new t =
     \<lparr>timeout_msec = t, timers = [], qtimers = [], connections = [],
      replies = Map.empty\<rparr>"

text \<open>
  \<open>QObject::startTimer\<close> returns \<open>0\<close> for a negative interval and starts no timer;
  otherwise it starts a timer that fires every \<open>interval\<close> milliseconds until it is
  killed, under the identifier \<open>tid\<close> that Qt chooses. \<open>killTimer\<close> stops it.
\<close>

definition startTimer :: "int \<Rightarrow> int \<Rightarrow> World \<Rightarrow> int \<times> World" where
  "startTimer interval tid w =
     (if interval < 0 then (0, w) else (tid, w\<lparr>qtimers := tid # qtimers w\<rparr>))"

definition killTimer :: "int \<Rightarrow> World \<Rightarrow> World" where
  "killTimer tid w = w\<lparr>qtimers := filter (\<lambda>t. t \<noteq> tid) (qtimers w)\<rparr>"

definition connect :: "pointer \<Rightarrow> Signal \<Rightarrow> World \<Rightarrow> World" where
  "connect sender sig w = w\<lparr>connections := connections w @ [(sender, sig)]\<rparr>"

definition AddReply :: "pointer \<Rightarrow> int \<Rightarrow> World \<Rightarrow> World" where
  "AddReply reply tid w =
     (if QMap_contains (timers w) reply then w
      else let w1 = connect reply SIGNAL_destroyed w;
               w2 = connect reply SIGNAL_finished w1;
               (t, w3) = startTimer (timeout_msec w2) tid w2
           in w3\<lparr>timers := QMap_insert reply t (timers w3)\<rparr>)"

text \<open>The slot; \<open>reply\<close> is \<open>sender()\<close>.\<close>

definition NetworkTimeouts_ReplyFinished :: "pointer \<Rightarrow> World \<Rightarrow> World" where
  "NetworkTimeouts_ReplyFinished reply w =
     (if QMap_contains (timers w) reply
      then let (t, m) = QMap_take reply (timers w) in killTimer t (w\<lparr>timers := m\<rparr>)
      else w)"

text \<open>
  A reply emits a signal: the slot runs once for each connection of that signal, in the
  order the connections were made, before the emission returns.
\<close>

definition emit :: "pointer \<Rightarrow> Signal \<Rightarrow> World \<Rightarrow> World" where
  "emit sender sig w =
     fold (\<lambda>c. NetworkTimeouts_ReplyFinished sender) (filter (\<lambda>c. c = (sender, sig)) (connections w)) w"

text \<open>
  Modelled from the spec: \<open>QNetworkReply::abort()\<close> belongs to the transport, which is not
  part of the source. The spec's sections 5 and 6: an operation "exposes abort()" and a
  terminal finished event "exactly once", and "aborting an operation must
  deterministically produce exactly one completion/error notification". So \<open>abort\<close> on a
  reply that has not finished finishes it and emits \<open>finished()\<close>; on a finished reply it
  emits nothing. The object counts the call. Calling it through a pointer to no object
  is undefined behaviour in C++; the model leaves the state as it is.
\<close>

definition abort :: "pointer \<Rightarrow> World \<Rightarrow> World" where
  "abort reply w =
     (case replies w reply of
        None \<Rightarrow> w
      | Some ob \<Rightarrow>
          let called = ob\<lparr>abort_calls := Suc (abort_calls ob)\<rparr>
          in if has_finished ob then w\<lparr>replies := (replies w)(reply \<mapsto> called)\<rparr>
             else emit reply SIGNAL_finished
                    (w\<lparr>replies := (replies w)(reply \<mapsto> called\<lparr>has_finished := True\<rparr>)\<rparr>))"

definition timerEvent :: "int \<Rightarrow> World \<Rightarrow> World" where
  "timerEvent timerId w =
     (let reply = QMap_key (timers w) timerId
      in if reply \<noteq> 0 then abort reply w else w)"

text \<open>
  What can happen to the supervisor: the transport creates a reply; a caller registers a
  live reply (Qt choosing the timer's identifier, not \<open>0\<close> and not that of a running
  timer); a running reply finishes by itself; a reply is destroyed (it emits
  \<open>destroyed()\<close>, then its connections go with it); a running timer fires.
\<close>

datatype event =
  ReplyCreated pointer
  | CallAddReply pointer int
  | ReplyFinishes pointer
  | ReplyDestroyed pointer
  | TimerFires int

fun enabled :: "World \<Rightarrow> event \<Rightarrow> bool" where
  "enabled w (ReplyCreated r) = (r \<noteq> 0 \<and> replies w r = None)"
| "enabled w (CallAddReply r tid) =
     (replies w r \<noteq> None \<and> tid \<noteq> 0 \<and> tid \<notin> set (qtimers w))"
| "enabled w (ReplyFinishes r) =
     (case replies w r of None \<Rightarrow> False | Some ob \<Rightarrow> \<not> has_finished ob)"
| "enabled w (ReplyDestroyed r) = (replies w r \<noteq> None)"
| "enabled w (TimerFires tid) = (tid \<in> set (qtimers w))"

fun step :: "event \<Rightarrow> World \<Rightarrow> World" where
  "step (ReplyCreated r) w =
     w\<lparr>replies := (replies w)(r \<mapsto> \<lparr>has_finished = False, abort_calls = 0\<rparr>)\<rparr>"
| "step (CallAddReply r tid) w = AddReply r tid w"
| "step (ReplyFinishes r) w =
     (case replies w r of
        None \<Rightarrow> w
      | Some ob \<Rightarrow>
          emit r SIGNAL_finished
            (w\<lparr>replies := (replies w)(r \<mapsto> ob\<lparr>has_finished := True\<rparr>)\<rparr>))"
| "step (ReplyDestroyed r) w =
     (let w1 = emit r SIGNAL_destroyed w
      in w1\<lparr>connections := filter (\<lambda>c. fst c \<noteq> r) (connections w1),
            replies := (replies w1)(r := None)\<rparr>)"
| "step (TimerFires tid) w = timerEvent tid w"

text \<open>A run of events; \<open>None\<close> when one of them cannot happen in the state it meets.\<close>

fun run :: "event list \<Rightarrow> World \<Rightarrow> World option" where
  "run [] w = Some w"
| "run (e # es) w = (if enabled w e then run es (step e w) else None)"

section \<open>\<open>RedirectFollower\<close>\<close>

text \<open>
  What the follower needs from outside the source file: the application's name and
  version, the class of each manager object (\<open>get\<close> calls the virtual
  \<open>createRequest\<close>) and \<open>QUrl::resolved\<close>, taken as a parameter.
\<close>

datatype manager_class = QNetworkAccessManager_class | NetworkAccessManager_class

record Qt =
  applicationName :: string
  applicationVersion :: string
  class_of :: "pointer \<Rightarrow> manager_class"
  resolved :: "QUrl \<Rightarrow> QUrl \<Rightarrow> QUrl"

text \<open>
  The follower's two members \<open>current_reply_\<close> and \<open>redirects_remaining_\<close> (a C++
  \<open>int\<close>; it only ever decreases, by one for each redirect response, so from a budget
  that is not negative it stays within \<open>-1\<close> and the budget and never wraps). After them:
  the reply objects ever created, a reply's pointer being its position counted from 1;
  the replies connected by \<open>ConnectReply\<close>; how many times the follower has emitted
  \<open>finished()\<close>; and the \<open>get\<close> calls it has made, oldest first.
\<close>

record RedirectFollower =
  current_reply :: pointer
  redirects_remaining :: int

record Chain = RedirectFollower +
  heap :: "unit QNetworkReply list"
  connected :: "pointer list"
  finished_emitted :: nat
  get_calls :: "(pointer \<times> QNetworkRequest) list"

definition deref :: "unit QNetworkReply list \<Rightarrow> pointer \<Rightarrow> unit QNetworkReply option" where
  "deref h p = (if 0 < p \<and> p \<le> length h then Some (h ! (p - 1)) else None)"

definition store ::
  "pointer \<Rightarrow> unit QNetworkReply \<Rightarrow> unit QNetworkReply list \<Rightarrow> unit QNetworkReply list" where
  "store p r h = (if 0 < p \<and> p \<le> length h then h[p - 1 := r] else h)"

text \<open>
  A call of the virtual \<open>createRequest\<close> runs the override of the manager's class.
  \<open>manager->get(req)\<close> is that call for a GET with no outgoing data; the new reply
  object gets the next pointer.
\<close>

definition virtual_createRequest ::
  "Qt \<Rightarrow> pointer \<Rightarrow> Operation \<Rightarrow> QNetworkRequest \<Rightarrow> pointer \<Rightarrow> unit QNetworkReply" where
  "virtual_createRequest qt m op req data =
     (case class_of qt m of
        NetworkAccessManager_class \<Rightarrow>
          createRequest (applicationName qt) (applicationVersion qt) m op req data
      | QNetworkAccessManager_class \<Rightarrow> QNetworkAccessManager_createRequest m op req data)"

definition QNetworkAccessManager_get ::
  "Qt \<Rightarrow> pointer \<Rightarrow> QNetworkRequest \<Rightarrow> Chain \<Rightarrow> pointer \<times> Chain" where
  "QNetworkAccessManager_get qt m req w =
     (let reply = virtual_createRequest qt m GetOperation req 0
      in (Suc (length (heap w)),
          w\<lparr>heap := heap w @ [reply], get_calls := get_calls w @ [(m, req)]\<rparr>))"

text \<open>
  \<open>ConnectReply\<close>: the reply's \<open>readyRead\<close>, \<open>error\<close> and progress signals are forwarded
  as the follower's own, and its \<open>finished()\<close> runs the slot \<open>ReplyFinished\<close>.
\<close>

definition ConnectReply :: "pointer \<Rightarrow> Chain \<Rightarrow> Chain" where
  "ConnectReply reply w = w\<lparr>connected := connected w @ [reply]\<rparr>"

text \<open>The constructor, given the reply objects that exist.\<close>

definition RedirectFollower_new :: "pointer \<Rightarrow> int \<Rightarrow> unit QNetworkReply list \<Rightarrow> Chain" where
  "RedirectFollower_new first_reply max_redirects h =
     ConnectReply first_reply
       \<lparr>current_reply = first_reply, redirects_remaining = max_redirects, heap = h,
        connected = [], finished_emitted = 0, get_calls = []\<rparr>"

definition emit_finished :: "Chain \<Rightarrow> Chain" where
  "emit_finished w = w\<lparr>finished_emitted := Suc (finished_emitted w)\<rparr>"

text \<open>
  The slot. \<open>redirects_remaining_-- == 0\<close> compares the old value and decrements in
  both branches. A \<open>current_reply_\<close> that points to no reply is undefined behaviour in
  C++; the model leaves the state as it is.
\<close>

definition RedirectFollower_ReplyFinished :: "Qt \<Rightarrow> Chain \<Rightarrow> Chain" where
  "RedirectFollower_ReplyFinished qt w =
     (case deref (heap w) (current_reply w) of
        None \<Rightarrow> w
      | Some cur \<Rightarrow>
          let w1 = w\<lparr>heap := store (current_reply w) (cur\<lparr>deleteLater := True\<rparr>) (heap w)\<rparr>
          in if isValid (reply_attributes cur RedirectionTargetAttribute)
             then let old = redirects_remaining w1;
                      w2 = w1\<lparr>redirects_remaining := old - 1\<rparr>
                  in if old = 0 then emit_finished w2
                     else let next_url = resolved qt (reply_url cur)
                                (toUrl (reply_attributes cur RedirectionTargetAttribute));
                              req = setUrl next_url (request cur);
                              (p, w3) = QNetworkAccessManager_get qt (manager cur) req w2
                          in ConnectReply p (w3\<lparr>current_reply := p\<rparr>)
             else emit_finished w1)"

text \<open>
  The transport delivers a response to a running reply: the reply takes the response's
  attributes, finishes, and emits \<open>finished()\<close>, which runs the slot once for each
  connection of that reply.
\<close>

definition reply_finishes :: "Qt \<Rightarrow> pointer \<Rightarrow> (Attribute \<Rightarrow> QVariant) \<Rightarrow> Chain \<Rightarrow> Chain" where
  "reply_finishes qt p response w =
     (case deref (heap w) p of
        None \<Rightarrow> w
      | Some r \<Rightarrow>
          fold (\<lambda>c. RedirectFollower_ReplyFinished qt) (filter (\<lambda>c. c = p) (connected w))
            (w\<lparr>heap := store p (r\<lparr>reply_attributes := response, isFinished := True\<rparr>)
                          (heap w)\<rparr>))"

definition is_running :: "Chain \<Rightarrow> pointer \<Rightarrow> bool" where
  "is_running w p = (case deref (heap w) p of None \<Rightarrow> False | Some r \<Rightarrow> \<not> isFinished r)"

text \<open>
  The chain's responses in order: each goes to the reply that is current when it
  arrives. Once the current reply has finished and no new one was issued, nothing is in
  flight and the responses left over are never asked for.
\<close>

fun respond :: "Qt \<Rightarrow> (Attribute \<Rightarrow> QVariant) list \<Rightarrow> Chain \<Rightarrow> Chain" where
  "respond qt [] w = w"
| "respond qt (r # rs) w =
     (if is_running w (current_reply w)
      then respond qt rs (reply_finishes qt (current_reply w) r w)
      else w)"

text \<open>
  The physical requests of the chain: the original one, which the caller sent to obtain
  \<open>first_reply\<close>, and the follower's \<open>get\<close> calls.
\<close>

definition requests_sent :: "Chain \<Rightarrow> nat" where
  "requests_sent w = Suc (length (get_calls w))"

section \<open>Invariants\<close>

text \<open>
  What holds of the supervisor after any run of events: \<open>timers_\<close> has one pair for each
  key; the running timers are distinct, none is \<open>0\<close>, and each is the timer of an entry;
  no two entries share a timer that is not \<open>0\<close>, and such a timer is running; a watched
  reply exists and both its signals are connected to the slot; no object lives at
  \<open>NULL\<close>; and a reply that has not finished was never aborted.
\<close>

definition consistent :: "World \<Rightarrow> bool" where
  "consistent w \<longleftrightarrow>
     distinct (map fst (timers w)) \<and> distinct (qtimers w) \<and> 0 \<notin> set (qtimers w)
     \<and> (\<forall>t. t \<in> set (qtimers w) \<longrightarrow> (\<exists>r. (r, t) \<in> set (timers w)))
     \<and> (\<forall>r r' t. (r, t) \<in> set (timers w) \<longrightarrow> (r', t) \<in> set (timers w) \<longrightarrow> t \<noteq> 0 \<longrightarrow> r = r')
     \<and> (\<forall>r t. (r, t) \<in> set (timers w) \<longrightarrow> t \<noteq> 0 \<longrightarrow> t \<in> set (qtimers w))
     \<and> (\<forall>r t. (r, t) \<in> set (timers w) \<longrightarrow> replies w r \<noteq> None)
     \<and> (\<forall>r t. (r, t) \<in> set (timers w) \<longrightarrow> (r, SIGNAL_finished) \<in> set (connections w))
     \<and> (\<forall>r t. (r, t) \<in> set (timers w) \<longrightarrow> (r, SIGNAL_destroyed) \<in> set (connections w))
     \<and> replies w 0 = None
     \<and> (\<forall>r ob. replies w r = Some ob \<longrightarrow> \<not> has_finished ob \<longrightarrow> abort_calls ob = 0)"

text \<open>
  The follower is waiting for its current reply: that reply is running and connected
  once, and every connected pointer is one of the heap.
\<close>

definition ready :: "Chain \<Rightarrow> bool" where
  "ready w \<longleftrightarrow> is_running w (current_reply w)
     \<and> filter (\<lambda>c. c = current_reply w) (connected w) = [current_reply w]
     \<and> (\<forall>c \<in> set (connected w). c \<le> length (heap w))"

text \<open>The request of the next hop, and a reply after its response and the slot.\<close>

definition next_request :: "Qt \<Rightarrow> unit QNetworkReply \<Rightarrow> QNetworkRequest" where
  "next_request qt cur = setUrl (resolved qt (reply_url cur)
       (toUrl (reply_attributes cur RedirectionTargetAttribute))) (request cur)"

definition answered :: "(Attribute \<Rightarrow> QVariant) \<Rightarrow> unit QNetworkReply \<Rightarrow> unit QNetworkReply" where
  "answered response r = r\<lparr>reply_attributes := response, isFinished := True, deleteLater := True\<rparr>"

section \<open>Concrete inputs\<close>

text \<open>A plain request: no header, no attribute set.\<close>

definition plain_request :: QNetworkRequest where
  "plain_request = \<lparr>url = ''http://a/b'', rawHeaders = Map.empty, attributes = (\<lambda>a. Invalid)\<rparr>"

text \<open>
  A runtime whose managers are all of class \<open>NetworkAccessManager\<close> and whose redirect
  targets are absolute; a redirect response and a response with no redirect target; a
  running GET reply; and a POST reply that was answered with a redirect.
\<close>

definition example_qt :: Qt where
  "example_qt = \<lparr>applicationName = ''Clementine'', applicationVersion = ''1.0'',
     class_of = (\<lambda>m. NetworkAccessManager_class), resolved = (\<lambda>base target. target)\<rparr>"

definition redirect_to :: "QUrl \<Rightarrow> Attribute \<Rightarrow> QVariant" where
  "redirect_to u = (\<lambda>a. Invalid)(RedirectionTargetAttribute := VUrl u)"

definition no_redirect :: "Attribute \<Rightarrow> QVariant" where
  "no_redirect = (\<lambda>a. Invalid)"

definition running_get :: "unit QNetworkReply" where
  "running_get = QNetworkAccessManager_createRequest 1 GetOperation plain_request 0"

definition redirected_post :: "unit QNetworkReply" where
  "redirected_post =
     (QNetworkAccessManager_createRequest 1 PostOperation plain_request 7)
       \<lparr>reply_attributes := redirect_to ''http://a/c'', isFinished := True\<rparr>"

text \<open>The supervisor watching reply \<open>1\<close> with timer \<open>5\<close>.\<close>

definition watching :: World where
  "watching = \<lparr>timeout_msec = 3000, timers = [(1, 5)], qtimers = [5],
     connections = [(1, SIGNAL_destroyed), (1, SIGNAL_finished)],
     replies = [1 \<mapsto> \<lparr>has_finished = False, abort_calls = 0\<rparr>]\<rparr>"



section \<open>The rewritten request\<close>

lemmas createRequest_defs =
  createRequest_def QNetworkAccessManager_createRequest_def new_request_def
  setRawHeader_def setHeader_def setAttribute_def header_def attribute_def user_agent_def
  Let_def

text \<open>
  What \<open>createRequest\<close> does to a request whose cache-load-control attribute is unset:
  \<open>toInt()\<close> of the invalid variant is \<open>0\<close>, the value of \<open>AlwaysNetwork\<close>, so the
  comparison with \<open>PreferNetwork\<close> fails and the attribute stays unset.
\<close>

lemma createRequest_unset_cache_policy:
  "attribute req CacheLoadControlAttribute = Invalid \<Longrightarrow>
   attribute (request (createRequest appName appVersion this op req data))
     CacheLoadControlAttribute = Invalid"
  by (simp add: createRequest_defs)

text \<open>
  Claim C1, as amended. The claim says that a request explicitly set to prefer-network
  keeps prefer-network. The code tests the attribute's value for \<open>PreferNetwork\<close> and
  overwrites exactly that value. Amended: a request whose cache-load-control attribute
  holds the integer of \<open>PreferNetwork\<close> is rewritten to \<open>PreferCache\<close>, and a request
  whose attribute holds any other integer keeps it.
\<close>

theorem createRequest_cache_policy:
  "attribute req CacheLoadControlAttribute = VInt v \<Longrightarrow>
   attribute (request (createRequest appName appVersion this op req data))
     CacheLoadControlAttribute
   = (if v = CacheLoadControl_value PreferNetwork
      then VInt (CacheLoadControl_value PreferCache) else VInt v)"
  by (simp add: createRequest_defs)

theorem createRequest_cache_policy_witness:
  "attribute (setAttribute CacheLoadControlAttribute (VInt 3) plain_request)
     CacheLoadControlAttribute = VInt 3
   \<and> attribute (request (createRequest ''Clementine'' ''1.0'' 1 GetOperation
        (setAttribute CacheLoadControlAttribute (VInt 3) plain_request) 0))
        CacheLoadControlAttribute = VInt 3"
proof -
  have h: "attribute (setAttribute CacheLoadControlAttribute (VInt 3) plain_request)
     CacheLoadControlAttribute = VInt 3"
    by (simp add: attribute_def setAttribute_def)
  from createRequest_cache_policy [OF h, of "''Clementine''" "''1.0''" 1 GetOperation 0] h
  show ?thesis by simp
qed

text \<open>
  Claim C1 as stated fails: the caller sets prefer-network explicitly and the rewritten
  request holds prefer-cache.
\<close>

theorem createRequest_prefer_network_counterexample:
  "attribute (setAttribute CacheLoadControlAttribute
       (VInt (CacheLoadControl_value PreferNetwork)) plain_request)
     CacheLoadControlAttribute = VInt (CacheLoadControl_value PreferNetwork)
   \<and> attribute (request (createRequest ''Clementine'' ''1.0'' 1 GetOperation
        (setAttribute CacheLoadControlAttribute
           (VInt (CacheLoadControl_value PreferNetwork)) plain_request) 0))
        CacheLoadControlAttribute = VInt (CacheLoadControl_value PreferCache)
   \<and> VInt (CacheLoadControl_value PreferCache) \<noteq> VInt (CacheLoadControl_value PreferNetwork)"
  by (simp add: createRequest_defs plain_request_def)

text \<open>
  Claim C7. A POST request with no content-type set leaves \<open>createRequest\<close> with the
  content-type \<open>application/x-www-form-urlencoded\<close>; a request of any operation that
  carries a content-type keeps it.
\<close>

theorem createRequest_content_type:
  "(op = PostOperation \<and> header req ContentTypeHeader = None \<longrightarrow>
      header (request (createRequest appName appVersion this op req data)) ContentTypeHeader
        = Some ''application/x-www-form-urlencoded'')
   \<and> (header req ContentTypeHeader = Some c \<longrightarrow>
      header (request (createRequest appName appVersion this op req data)) ContentTypeHeader
        = Some c)"
  by (simp add: createRequest_defs)

theorem createRequest_content_type_witness:
  "header plain_request ContentTypeHeader = None
   \<and> header (request (createRequest ''Clementine'' ''1.0'' 1 PostOperation plain_request 7))
       ContentTypeHeader = Some ''application/x-www-form-urlencoded''
   \<and> header (setHeader ContentTypeHeader ''text/xml'' plain_request) ContentTypeHeader
       = Some ''text/xml''
   \<and> header (request (createRequest ''Clementine'' ''1.0'' 1 PostOperation
         (setHeader ContentTypeHeader ''text/xml'' plain_request) 7))
       ContentTypeHeader = Some ''text/xml''"
proof -
  have h1: "header plain_request ContentTypeHeader = None"
    by (simp add: header_def plain_request_def)
  have h2: "header (setHeader ContentTypeHeader ''text/xml'' plain_request) ContentTypeHeader
       = Some ''text/xml''"
    by (simp add: header_def setHeader_def setRawHeader_def)
  from createRequest_content_type
         [of PostOperation plain_request "''Clementine''" "''1.0''" 1 7 "''text/xml''"]
       createRequest_content_type
         [of PostOperation "setHeader ContentTypeHeader ''text/xml'' plain_request"
             "''Clementine''" "''1.0''" 1 7 "''text/xml''"]
       h1 h2
  show ?thesis by simp
qed

text \<open>
  Claim C9. Whatever the request and the operation, \<open>createRequest\<close> hands the operation
  and the outgoing data on as they are, and the request it hands on differs from the
  caller's at most in the raw header \<open>User-Agent\<close>, the content-type header and the
  cache-load-control attribute: the URL, every other header, every other attribute and
  the rest of the request are the caller's.
\<close>

theorem createRequest_frame:
  fixes req :: "'a QNetworkRequest_scheme"
  shows
  "operation (createRequest appName appVersion this op req data) = op
   \<and> outgoingData (createRequest appName appVersion this op req data) = data
   \<and> url (request (createRequest appName appVersion this op req data)) = url req
   \<and> QNetworkRequest.more (request (createRequest appName appVersion this op req data))
       = QNetworkRequest.more req
   \<and> (\<forall>n. n \<noteq> ''User-Agent'' \<and> n \<noteq> headerName ContentTypeHeader \<longrightarrow>
         rawHeaders (request (createRequest appName appVersion this op req data)) n
           = rawHeaders req n)
   \<and> (\<forall>a. a \<noteq> CacheLoadControlAttribute \<longrightarrow>
         attribute (request (createRequest appName appVersion this op req data)) a
           = attribute req a)"
  by (simp add: createRequest_defs)

theorem createRequest_frame_witness:
  "operation (createRequest ''Clementine'' ''1.0'' 1 PostOperation
       (setRawHeader ''Accept'' ''*/*'' plain_request) 7) = PostOperation
   \<and> outgoingData (createRequest ''Clementine'' ''1.0'' 1 PostOperation
       (setRawHeader ''Accept'' ''*/*'' plain_request) 7) = 7
   \<and> url (request (createRequest ''Clementine'' ''1.0'' 1 PostOperation
       (setRawHeader ''Accept'' ''*/*'' plain_request) 7)) = ''http://a/b''
   \<and> ''Accept'' \<noteq> ''User-Agent'' \<and> ''Accept'' \<noteq> headerName ContentTypeHeader
   \<and> rawHeaders (request (createRequest ''Clementine'' ''1.0'' 1 PostOperation
       (setRawHeader ''Accept'' ''*/*'' plain_request) 7)) ''Accept'' = Some ''*/*''
   \<and> RedirectionTargetAttribute \<noteq> CacheLoadControlAttribute
   \<and> attribute (request (createRequest ''Clementine'' ''1.0'' 1 PostOperation
       (setRawHeader ''Accept'' ''*/*'' plain_request) 7)) RedirectionTargetAttribute
       = Invalid"
proof -
  have r: "rawHeaders (setRawHeader ''Accept'' ''*/*'' plain_request) ''Accept'' = Some ''*/*''"
    by (simp add: setRawHeader_def)
  have a: "attribute (setRawHeader ''Accept'' ''*/*'' plain_request)
             RedirectionTargetAttribute = Invalid"
    by (simp add: setRawHeader_def attribute_def plain_request_def)
  have u: "url (setRawHeader ''Accept'' ''*/*'' plain_request) = ''http://a/b''"
    by (simp add: setRawHeader_def plain_request_def)
  have n: "''Accept'' \<noteq> ''User-Agent'' \<and> ''Accept'' \<noteq> headerName ContentTypeHeader"
    by simp
  from createRequest_frame
         [of "''Clementine''" "''1.0''" 1 PostOperation
             "setRawHeader ''Accept'' ''*/*'' plain_request" 7] r a u n
  show ?thesis by simp
qed

text \<open>
  Claim C10. \<open>createRequest\<close> sets the raw header \<open>User-Agent\<close> of every request to the
  application's name, a space and the application's version, whatever the caller had
  put there.
\<close>

theorem createRequest_user_agent:
  "rawHeaders (request (createRequest appName appVersion this op req data)) ''User-Agent''
   = Some (appName @ '' '' @ appVersion)"
  by (simp add: createRequest_defs)

section \<open>The timeout supervisor\<close>

subsection \<open>The map\<close>

lemma map_of_QMap_remove: "map_of (QMap_remove k m) k' = (if k' = k then None else map_of m k')"
  by (induction m) (auto simp: QMap_remove_def)

lemma set_QMap_remove: "set (QMap_remove k m) = {p \<in> set m. fst p \<noteq> k}"
  by (auto simp: QMap_remove_def)

lemma distinct_QMap_remove: "distinct (map fst m) \<Longrightarrow> distinct (map fst (QMap_remove k m))"
  by (simp add: QMap_remove_def distinct_map_filter)

lemma QMap_remove_absent: "map_of m k = None \<Longrightarrow> QMap_remove k m = m"
  by (induction m) (auto simp: QMap_remove_def split: if_splits)

lemma fold_min_in: "fold min ks (k::nat) \<in> set (k # ks)"
  by (induction ks arbitrary: k) (auto simp: min_def)

lemma QMap_key_in: "QMap_key m v \<noteq> 0 \<Longrightarrow> (QMap_key m v, v) \<in> set m"
proof -
  assume a: "QMap_key m v \<noteq> 0"
  then obtain k ks where e: "map fst (filter (\<lambda>p. snd p = v) m) = k # ks"
    by (auto simp: QMap_key_def split: list.splits)
  then have "QMap_key m v \<in> set (map fst (filter (\<lambda>p. snd p = v) m))"
    using fold_min_in [of ks k] by (simp add: QMap_key_def)
  then show ?thesis by auto
qed

lemma fold_min_const: "set ks \<subseteq> {k} \<Longrightarrow> fold min ks (k::nat) = k"
  by (induction ks) auto

lemma QMap_key_unique:
  assumes "(r, v) \<in> set m" and "\<forall>r'. (r', v) \<in> set m \<longrightarrow> r' = r"
  shows "QMap_key m v = r"
proof -
  let ?ks = "map fst (filter (\<lambda>p. snd p = v) m)"
  have "r \<in> set ?ks" using assms(1) by force
  moreover have "set ?ks \<subseteq> {r}" using assms(2) by auto
  ultimately obtain k ks where e: "?ks = k # ks" and "k = r" and "set ks \<subseteq> {r}"
    by (cases ?ks) auto
  then show ?thesis using fold_min_const [of ks r] by (simp add: QMap_key_def)
qed

subsection \<open>The slot and the emission of a signal\<close>

lemma ReplyFinished_timers:
  "timers (NetworkTimeouts_ReplyFinished r w) = QMap_remove r (timers w)"
  by (auto simp: NetworkTimeouts_ReplyFinished_def QMap_contains_def QMap_take_def killTimer_def
      QMap_remove_absent split: option.splits)

lemma ReplyFinished_qtimers:
  "qtimers (NetworkTimeouts_ReplyFinished r w) =
     (case map_of (timers w) r of None \<Rightarrow> qtimers w
      | Some t \<Rightarrow> filter (\<lambda>x. x \<noteq> t) (qtimers w))"
  by (auto simp: NetworkTimeouts_ReplyFinished_def QMap_contains_def QMap_take_def killTimer_def
      split: option.splits)

lemma ReplyFinished_rest:
  "connections (NetworkTimeouts_ReplyFinished r w) = connections w"
  "replies (NetworkTimeouts_ReplyFinished r w) = replies w"
  "timeout_msec (NetworkTimeouts_ReplyFinished r w) = timeout_msec w"
  by (auto simp: NetworkTimeouts_ReplyFinished_def QMap_contains_def QMap_take_def killTimer_def
      split: option.splits)

lemma ReplyFinished_absent:
  "\<not> QMap_contains (timers w) r \<Longrightarrow> NetworkTimeouts_ReplyFinished r w = w"
  by (simp add: NetworkTimeouts_ReplyFinished_def)

lemma ReplyFinished_twice:
  "NetworkTimeouts_ReplyFinished r (NetworkTimeouts_ReplyFinished r w)
     = NetworkTimeouts_ReplyFinished r w"
  by (rule ReplyFinished_absent)
     (simp add: ReplyFinished_timers QMap_contains_def map_of_QMap_remove)

lemma fold_idem: "(\<And>x. f (f x) = f x) \<Longrightarrow> fold (\<lambda>c. f) cs (f w) = f w"
  by (induction cs) auto

lemma emit_eq:
  "emit r sig w =
     (if (r, sig) \<in> set (connections w) then NetworkTimeouts_ReplyFinished r w else w)"
proof (cases "filter (\<lambda>c. c = (r, sig)) (connections w)")
  case Nil
  then have "(r, sig) \<notin> set (connections w)"
    by (metis (mono_tags, lifting) filter_empty_conv)
  with Nil show ?thesis by (simp add: emit_def)
next
  case (Cons c cs)
  then have "(r, sig) \<in> set (connections w)"
    by (metis (mono_tags, lifting) filter_empty_conv list.distinct(1))
  with Cons show ?thesis
    by (simp add: emit_def fold_idem [of "NetworkTimeouts_ReplyFinished r", OF ReplyFinished_twice])
qed

subsection \<open>Every event keeps the invariant\<close>

lemma map_of_in: "distinct (map fst m) \<Longrightarrow> (map_of m k = Some v) = ((k, v) \<in> set m)"
  by (rule map_of_eq_Some_iff)

lemma consistentI:
  assumes "distinct (map fst (timers w))" and "distinct (qtimers w)" and "0 \<notin> set (qtimers w)"
    and "\<And>t. t \<in> set (qtimers w) \<Longrightarrow> \<exists>r. (r, t) \<in> set (timers w)"
    and "\<And>r r' t. (r, t) \<in> set (timers w) \<Longrightarrow> (r', t) \<in> set (timers w) \<Longrightarrow> t \<noteq> 0 \<Longrightarrow> r = r'"
    and "\<And>r t. (r, t) \<in> set (timers w) \<Longrightarrow> t \<noteq> 0 \<Longrightarrow> t \<in> set (qtimers w)"
    and "\<And>r t. (r, t) \<in> set (timers w) \<Longrightarrow> replies w r \<noteq> None"
    and "\<And>r t. (r, t) \<in> set (timers w) \<Longrightarrow> (r, SIGNAL_finished) \<in> set (connections w)"
    and "\<And>r t. (r, t) \<in> set (timers w) \<Longrightarrow> (r, SIGNAL_destroyed) \<in> set (connections w)"
    and "replies w 0 = None"
    and "\<And>r ob. replies w r = Some ob \<Longrightarrow> \<not> has_finished ob \<Longrightarrow> abort_calls ob = 0"
  shows "consistent w"
  unfolding consistent_def
proof (intro conjI allI impI, goal_cases)
  case 1 show ?case by (rule assms(1))
next
  case 2 show ?case by (rule assms(2))
next
  case 3 show ?case by (rule assms(3))
next
  case (4 t) then show ?case by (rule assms(4))
next
  case (5 r r' t) then show ?case by (rule assms(5))
next
  case (6 r t) then show ?case by (rule assms(6))
next
  case (7 r t) then show ?case by (rule assms(7))
next
  case (8 r t) then show ?case by (rule assms(8))
next
  case (9 r t) then show ?case by (rule assms(9))
next
  case 10 show ?case by (rule assms(10))
next
  case (11 r ob) then show ?case by (rule assms(11))
qed

lemma consistentD:
  assumes "consistent w"
  shows "distinct (map fst (timers w))" and "distinct (qtimers w)" and "0 \<notin> set (qtimers w)"
    and "\<And>t. t \<in> set (qtimers w) \<Longrightarrow> \<exists>r. (r, t) \<in> set (timers w)"
    and "\<And>r r' t. (r, t) \<in> set (timers w) \<Longrightarrow> (r', t) \<in> set (timers w) \<Longrightarrow> t \<noteq> 0 \<Longrightarrow> r = r'"
    and "\<And>r t. (r, t) \<in> set (timers w) \<Longrightarrow> t \<noteq> 0 \<Longrightarrow> t \<in> set (qtimers w)"
    and "\<And>r t. (r, t) \<in> set (timers w) \<Longrightarrow> replies w r \<noteq> None"
    and "\<And>r t. (r, t) \<in> set (timers w) \<Longrightarrow> (r, SIGNAL_finished) \<in> set (connections w)"
    and "\<And>r t. (r, t) \<in> set (timers w) \<Longrightarrow> (r, SIGNAL_destroyed) \<in> set (connections w)"
    and "replies w 0 = None"
    and "\<And>r ob. replies w r = Some ob \<Longrightarrow> \<not> has_finished ob \<Longrightarrow> abort_calls ob = 0"
  using assms unfolding consistent_def by blast+

lemma consistent_ReplyFinished:
  assumes "consistent w" shows "consistent (NetworkTimeouts_ReplyFinished r w)"
proof (cases "map_of (timers w) r")
  case None
  then have "NetworkTimeouts_ReplyFinished r w = w"
    by (simp add: ReplyFinished_absent QMap_contains_def)
  with assms show ?thesis by simp
next
  case (Some t)
  note D = consistentD [OF assms]
  have rt: "(r, t) \<in> set (timers w)" using Some D(1) by (simp add: map_of_in)
  have q: "qtimers (NetworkTimeouts_ReplyFinished r w) = filter (\<lambda>x. x \<noteq> t) (qtimers w)"
    by (simp add: ReplyFinished_qtimers Some)
  have key: "\<And>t'. (r, t') \<in> set (timers w) \<Longrightarrow> t' = t"
    using D(1) rt by (meson eq_key_imp_eq_value)
  show ?thesis
  proof (rule consistentI; (unfold ReplyFinished_timers q ReplyFinished_rest set_QMap_remove)?)
    show "distinct (map fst (QMap_remove r (timers w)))"
      using D(1) by (rule distinct_QMap_remove)
    show "distinct (filter (\<lambda>x. x \<noteq> t) (qtimers w))" using D(2) by simp
    show "0 \<notin> set (filter (\<lambda>x. x \<noteq> t) (qtimers w))" using D(3) by simp
  next
    fix x assume "x \<in> set (filter (\<lambda>x. x \<noteq> t) (qtimers w))"
    then have x: "x \<in> set (qtimers w)" "x \<noteq> t" by auto
    then obtain r' where r': "(r', x) \<in> set (timers w)" using D(4) by blast
    with x key have "r' \<noteq> r" by auto
    with r' show "\<exists>r'. (r', x) \<in> {p \<in> set (timers w). fst p \<noteq> r}" by force
  next
    fix a b x assume "(a, x) \<in> {p \<in> set (timers w). fst p \<noteq> r}"
      "(b, x) \<in> {p \<in> set (timers w). fst p \<noteq> r}" "x \<noteq> 0"
    then show "a = b" using D(5) by blast
  next
    fix a x assume a: "(a, x) \<in> {p \<in> set (timers w). fst p \<noteq> r}" and x: "x \<noteq> 0"
    then have "x \<in> set (qtimers w)" using D(6) by blast
    moreover have "x \<noteq> t" using D(5) [of a x r] a x rt by auto
    ultimately show "x \<in> set (filter (\<lambda>x. x \<noteq> t) (qtimers w))" by simp
  next
    fix a x assume a: "(a, x) \<in> {p \<in> set (timers w). fst p \<noteq> r}"
    then show "replies w a \<noteq> None" "(a, SIGNAL_finished) \<in> set (connections w)"
      "(a, SIGNAL_destroyed) \<in> set (connections w)"
      using D(7,8,9) by blast+
  next
    show "replies w 0 = None" by (rule D(10))
  next
    fix a ob assume "replies w a = Some ob" "\<not> has_finished ob"
    then show "abort_calls ob = 0" by (rule D(11))
  qed
qed

lemma consistent_emit: "consistent w \<Longrightarrow> consistent (emit r sig w)"
  by (simp add: emit_eq consistent_ReplyFinished)

lemma consistent_replies_update:
  assumes "consistent w" and "replies w r = Some ob" and "has_finished ob' \<or> abort_calls ob' = 0"
  shows "consistent (w\<lparr>replies := (replies w)(r \<mapsto> ob')\<rparr>)"
proof -
  note D = consistentD [OF assms(1)]
  have "r \<noteq> 0" using D(10) assms(2) by (metis option.distinct(1))
  then show ?thesis
    using D assms(3) by (intro consistentI) (auto split: if_splits)
qed

lemma consistent_created:
  assumes "consistent w" and "r \<noteq> 0"
  shows "consistent (w\<lparr>replies := (replies w)(r \<mapsto> \<lparr>has_finished = False, abort_calls = 0\<rparr>)\<rparr>)"
proof -
  note D = consistentD [OF assms(1)]
  show ?thesis
    using D assms(2) by (intro consistentI) (auto split: if_splits)
qed

lemma consistent_abort: assumes "consistent w" shows "consistent (abort r w)"
proof (cases "replies w r")
  case None then show ?thesis using assms by (simp add: abort_def)
next
  case (Some ob)
  show ?thesis
  proof (cases "has_finished ob")
    case True
    then show ?thesis using assms Some
      by (simp add: abort_def Let_def consistent_replies_update)
  next
    case False
    then show ?thesis using assms Some
      by (simp add: abort_def Let_def consistent_replies_update consistent_emit)
  qed
qed

lemma consistent_timerEvent: "consistent w \<Longrightarrow> consistent (timerEvent tid w)"
  by (simp add: timerEvent_def Let_def consistent_abort)

lemma consistent_AddReply:
  assumes "consistent w" and "enabled w (CallAddReply r tid)"
  shows "consistent (AddReply r tid w)"
proof (cases "QMap_contains (timers w) r")
  case True then show ?thesis using assms by (simp add: AddReply_def)
next
  case False
  note D = consistentD [OF assms(1)]
  have absent: "\<And>t. (r, t) \<notin> set (timers w)"
    using False by (metis QMap_contains_def map_of_eq_None_iff fst_conv image_eqI)
  have rm: "QMap_remove r (timers w) = timers w"
    using False by (simp add: QMap_remove_absent QMap_contains_def)
  have fresh: "tid \<noteq> 0" "tid \<notin> set (qtimers w)" "replies w r \<noteq> None"
    using assms(2) by auto
  have nomap: "\<And>a. (a, tid) \<notin> set (timers w)"
    using D(6) fresh by blast
  have dk: "distinct (map fst ((r, t) # timers w))" for t
    using D(1) absent by force
  show ?thesis
  proof (cases "timeout_msec w < 0")
    case True
    have eq: "AddReply r tid w = w\<lparr>connections := connections w @ [(r, SIGNAL_destroyed), (r, SIGNAL_finished)],
        timers := (r, 0) # timers w\<rparr>"
      using False True by (simp add: AddReply_def connect_def startTimer_def Let_def QMap_insert_def rm)
    show ?thesis unfolding eq
    proof (rule consistentI, goal_cases)
      case (1 )
      then show ?case using dk [of 0] by simp
    next
      case (2 )
      then show ?case using D(2) by simp
    next
      case (3 )
      then show ?case using D(3) by simp
    next
      case (4 t)
      then show ?case using D(4) [of t] by auto
    next
      case (5 a b t)
      then show ?case using D(5) [of a t b] by auto
    next
      case (6 a t)
      then show ?case using D(6) [of a t] by auto
    next
      case (7 a t)
      then show ?case using D(7) [of a t] fresh(3) by auto
    next
      case (8 a t)
      then show ?case using D(8) [of a t] by auto
    next
      case (9 a t)
      then show ?case using D(9) [of a t] by auto
    next
      case (10 )
      then show ?case using D(10) by simp
    next
      case (11 a ob)
      then show ?case using D(11) [of a ob] by simp
    qed
  next
    case nonneg: False
    have eq: "AddReply r tid w = w\<lparr>connections := connections w @ [(r, SIGNAL_destroyed), (r, SIGNAL_finished)],
        qtimers := tid # qtimers w, timers := (r, tid) # timers w\<rparr>"
      using False nonneg by (simp add: AddReply_def connect_def startTimer_def Let_def QMap_insert_def rm)
    show ?thesis unfolding eq
    proof (rule consistentI, goal_cases)
    next
      case (1 )
      then show ?case using dk [of tid] by simp
    next
      case (2 )
      then show ?case using D(2) fresh(2) by simp
    next
      case (3 )
      then show ?case using D(3) fresh(1) by simp
    next
      case (4 t)
      then show ?case using D(4) [of t] by auto
    next
      case (5 a b t)
      then show ?case using D(5) [of a t b] nomap by auto
    next
      case (6 a t)
      then show ?case using D(6) [of a t] by auto
    next
      case (7 a t)
      then show ?case using D(7) [of a t] fresh(3) by auto
    next
      case (8 a t)
      then show ?case using D(8) [of a t] by auto
    next
      case (9 a t)
      then show ?case using D(9) [of a t] by auto
    next
      case (10 )
      then show ?case using D(10) by simp
    next
      case (11 a ob)
      then show ?case using D(11) [of a ob] by simp
    qed
  qed
qed


lemma consistent_forget:
  assumes "consistent w" and "\<And>t. (r, t) \<notin> set (timers w)"
  shows "consistent (w\<lparr>connections := filter (\<lambda>c. fst c \<noteq> r) (connections w),
            replies := (replies w)(r := None)\<rparr>)"
proof -
  note D = consistentD [OF assms(1)]
  have ne: "a \<noteq> r" if "(a, t) \<in> set (timers w)" for a t
    using that assms(2) by auto
  show ?thesis
    apply (rule consistentI)
    subgoal using D(1) by simp
    subgoal using D(2) by simp
    subgoal using D(3) by simp
    subgoal for t using D(4) [of t] by simp
    subgoal for a b t using D(5) [of a t b] by simp
    subgoal for a t using D(6) [of a t] by simp
    subgoal for a t using D(7) [of a t] ne [of a t] by simp
    subgoal for a t using D(8) [of a t] ne [of a t] by simp
    subgoal for a t using D(9) [of a t] ne [of a t] by simp
    subgoal using D(10) by simp
    subgoal for a ob using D(11) [of a ob] by (simp split: if_splits)
    done
qed

lemma consistent_destroyed:
  assumes "consistent w" shows "consistent (step (ReplyDestroyed r) w)"
proof (cases "(r, SIGNAL_destroyed) \<in> set (connections w)")
  case True
  let ?w1 = "NetworkTimeouts_ReplyFinished r w"
  have w1: "consistent ?w1" using assms by (rule consistent_ReplyFinished)
  have gone: "\<And>t. (r, t) \<notin> set (timers ?w1)"
    by (simp add: ReplyFinished_timers set_QMap_remove)
  have "step (ReplyDestroyed r) w = ?w1\<lparr>connections := filter (\<lambda>c. fst c \<noteq> r) (connections ?w1),
            replies := (replies ?w1)(r := None)\<rparr>"
    using True by (simp add: emit_eq Let_def)
  then show ?thesis using consistent_forget [OF w1 gone] by simp
next
  case False
  then have gone: "\<And>t. (r, t) \<notin> set (timers w)"
    using consistentD(9) [OF assms] by blast
  have "step (ReplyDestroyed r) w = w\<lparr>connections := filter (\<lambda>c. fst c \<noteq> r) (connections w),
            replies := (replies w)(r := None)\<rparr>"
    using False by (simp add: emit_eq Let_def)
  then show ?thesis using consistent_forget [OF assms gone] by simp
qed

lemma consistent_step: assumes "consistent w" and "enabled w e" shows "consistent (step e w)"
proof (cases e)
  case (ReplyCreated r)
  then show ?thesis using assms by (simp add: consistent_created)
next
  case (CallAddReply r tid)
  then show ?thesis using assms consistent_AddReply [of w r tid] by simp
next
  case (ReplyFinishes r)
  then obtain ob where "replies w r = Some ob" using assms(2) by (auto split: option.splits)
  then show ?thesis using ReplyFinishes assms(1)
    by (simp add: consistent_emit consistent_replies_update)
next
  case (ReplyDestroyed r)
  then show ?thesis using assms consistent_destroyed by simp
next
  case (TimerFires tid)
  then show ?thesis using assms by (simp add: consistent_timerEvent)
qed

lemma run_Cons:
  "run (e # es) w = Some w' \<longleftrightarrow> enabled w e \<and> run es (step e w) = Some w'"
  by simp

lemma consistent_run: "consistent w \<Longrightarrow> run es w = Some w' \<Longrightarrow> consistent w'"
proof (induction es arbitrary: w)
  case Nil
  then show ?case by simp
next
  case (Cons e es)
  from Cons.prems(2) have "enabled w e" and "run es (step e w) = Some w'"
    by (simp_all only: run_Cons)
  with Cons.prems(1) Cons.IH [of "step e w"] consistent_step [of w e] show ?case by blast
qed

lemma consistent_new: "consistent (NetworkTimeouts_new t)"
  by (simp add: consistent_def NetworkTimeouts_new_def)

subsection \<open>The timer event, and replies that are not watched\<close>

lemma QMap_contains_remove:
  "QMap_contains (QMap_remove k m) k' \<longleftrightarrow> k' \<noteq> k \<and> QMap_contains m k'"
  by (simp add: QMap_contains_def map_of_QMap_remove)

lemma QMap_contains_iff: "QMap_contains m k \<longleftrightarrow> (\<exists>v. (k, v) \<in> set m)"
  by (metis QMap_contains_def map_of_eq_None_iff fst_conv image_iff prod.collapse)

lemma timerEvent_watched:
  assumes "consistent w" and "map_of (timers w) r = Some tid" and "tid \<in> set (qtimers w)"
    and "replies w r = Some ob" and "\<not> has_finished ob"
  shows "timerEvent tid w =
     NetworkTimeouts_ReplyFinished r
       (w\<lparr>replies := (replies w)(r \<mapsto> \<lparr>has_finished = True, abort_calls = 1\<rparr>)\<rparr>)"
proof -
  note D = consistentD [OF assms(1)]
  have rt: "(r, tid) \<in> set (timers w)" using assms(2) by (rule map_of_SomeD)
  have t0: "tid \<noteq> 0" using D(3) assms(3) by auto
  have "QMap_key (timers w) tid = r"
    using rt D(5) t0 by (intro QMap_key_unique) blast+
  moreover have "r \<noteq> 0" using D(10) assms(4) by (metis option.distinct(1))
  moreover have "(r, SIGNAL_finished) \<in> set (connections w)" using D(8) rt by blast
  moreover have "abort_calls ob = 0" using D(11) assms(4,5) by blast
  then have "ob\<lparr>abort_calls := Suc (abort_calls ob), has_finished := True\<rparr>
     = \<lparr>has_finished = True, abort_calls = 1\<rparr>" by simp
  ultimately show ?thesis
    using assms(4,5) by (simp add: timerEvent_def abort_def Let_def emit_eq)
qed

lemma abort_other: "k \<noteq> r \<Longrightarrow> replies (abort k w) r = replies w r"
  by (simp add: abort_def Let_def emit_eq ReplyFinished_rest split: option.splits)

lemma abort_timers_contains:
  "QMap_contains (timers (abort k w)) r \<Longrightarrow> QMap_contains (timers w) r"
  by (auto simp: abort_def Let_def emit_eq ReplyFinished_timers QMap_contains_remove
      split: option.splits if_splits)

lemma timerEvent_unwatched:
  assumes "\<not> QMap_contains (timers w) r"
  shows "replies (timerEvent tid w) r = replies w r \<and> \<not> QMap_contains (timers (timerEvent tid w)) r"
proof (cases "QMap_key (timers w) tid = 0")
  case True
  then show ?thesis using assms by (simp add: timerEvent_def)
next
  case False
  then have "(QMap_key (timers w) tid, tid) \<in> set (timers w)" by (rule QMap_key_in)
  then have "QMap_key (timers w) tid \<noteq> r" using assms by (auto simp: QMap_contains_iff)
  then show ?thesis using False assms abort_other abort_timers_contains
    by (auto simp: timerEvent_def Let_def)
qed

lemma step_unwatched:
  assumes "\<not> QMap_contains (timers w) r" and "enabled w e"
    and "\<forall>tid. e \<noteq> CallAddReply r tid"
  shows "\<not> QMap_contains (timers (step e w)) r"
proof (cases e)
  case (ReplyCreated x)
  then show ?thesis using assms by simp
next
  case (CallAddReply x tid)
  then have "x \<noteq> r" using assms(3) by auto
  then show ?thesis using assms(1) CallAddReply
    by (auto simp: AddReply_def connect_def startTimer_def Let_def QMap_insert_def
        QMap_contains_iff set_QMap_remove split: if_splits)
next
  case (ReplyFinishes x)
  then show ?thesis using assms(1,2)
    by (auto simp: emit_eq ReplyFinished_timers QMap_contains_remove split: option.splits)
next
  case (ReplyDestroyed x)
  then show ?thesis using assms(1)
    by (auto simp: emit_eq ReplyFinished_timers QMap_contains_remove Let_def)
next
  case (TimerFires tid)
  then show ?thesis using timerEvent_unwatched [OF assms(1)] by simp
qed

text \<open>An unwatched, finished reply is left alone as long as it is neither registered
  again nor destroyed.\<close>

lemma step_finished_unwatched:
  assumes "\<not> QMap_contains (timers w) r" and "replies w r = Some ob" and "has_finished ob"
    and "enabled w e" and "\<forall>tid. e \<noteq> CallAddReply r tid" and "e \<noteq> ReplyDestroyed r"
  shows "replies (step e w) r = Some ob"
proof (cases e)
  case (ReplyCreated x)
  then show ?thesis using assms by auto
next
  case (CallAddReply x tid)
  then show ?thesis using assms(2)
    by (auto simp: AddReply_def connect_def startTimer_def Let_def split: if_splits)
next
  case (ReplyFinishes x)
  then have "x \<noteq> r" using assms(2,3,4) by auto
  then show ?thesis using ReplyFinishes assms(2)
    by (auto simp: emit_eq ReplyFinished_rest split: option.splits)
next
  case (ReplyDestroyed x)
  then have "x \<noteq> r" using assms(6) by auto
  then show ?thesis using ReplyDestroyed assms(2)
    by (auto simp: emit_eq ReplyFinished_rest Let_def)
next
  case (TimerFires tid)
  then show ?thesis using timerEvent_unwatched [OF assms(1)] assms(2) by simp
qed

lemma run_finished_unwatched:
  assumes "run es w = Some w'" and "\<not> QMap_contains (timers w) r"
    and "replies w r = Some ob" and "has_finished ob"
    and "\<forall>tid. CallAddReply r tid \<notin> set es" and "ReplyDestroyed r \<notin> set es"
  shows "replies w' r = Some ob \<and> \<not> QMap_contains (timers w') r"
  using assms
proof (induction es arbitrary: w)
  case Nil
  then show ?case by simp
next
  case (Cons e es)
  from Cons.prems(1) have en: "enabled w e" and r: "run es (step e w) = Some w'"
    by (simp_all only: run_Cons)
  have ne: "\<forall>tid. e \<noteq> CallAddReply r tid" "e \<noteq> ReplyDestroyed r"
    using Cons.prems(5,6) by auto
  have 1: "\<not> QMap_contains (timers (step e w)) r"
    using step_unwatched [OF Cons.prems(2) en ne(1)] .
  have 2: "replies (step e w) r = Some ob"
    using step_finished_unwatched [OF Cons.prems(2,3,4) en ne] .
  show ?case
    using Cons.IH [OF r 1 2 Cons.prems(4)] Cons.prems(5,6) by simp
qed

text \<open>No abort reaches an unwatched reply.\<close>

lemma step_never_aborted:
  assumes "\<not> QMap_contains (timers w) r" and "\<forall>ob. replies w r = Some ob \<longrightarrow> abort_calls ob = 0"
    and "enabled w e"
  shows "\<forall>ob. replies (step e w) r = Some ob \<longrightarrow> abort_calls ob = 0"
proof (cases e)
  case (ReplyCreated x)
  then show ?thesis using assms by auto
next
  case (CallAddReply x tid)
  then show ?thesis using assms(2)
    by (auto simp: AddReply_def connect_def startTimer_def Let_def split: if_splits)
next
  case (ReplyFinishes x)
  then show ?thesis using assms(2)
    by (auto simp: emit_eq ReplyFinished_rest split: option.splits if_splits)
next
  case (ReplyDestroyed x)
  then show ?thesis using assms(2)
    by (auto simp: emit_eq ReplyFinished_rest Let_def split: if_splits)
next
  case (TimerFires tid)
  then show ?thesis using timerEvent_unwatched [OF assms(1)] assms(2) by simp
qed

lemma run_never_aborted:
  assumes "run es w = Some w'" and "\<not> QMap_contains (timers w) r"
    and "\<forall>ob. replies w r = Some ob \<longrightarrow> abort_calls ob = 0"
    and "\<forall>tid. CallAddReply r tid \<notin> set es"
  shows "(\<forall>ob. replies w' r = Some ob \<longrightarrow> abort_calls ob = 0) \<and> \<not> QMap_contains (timers w') r"
  using assms
proof (induction es arbitrary: w)
  case Nil
  then show ?case by simp
next
  case (Cons e es)
  from Cons.prems(1) have en: "enabled w e" and r: "run es (step e w) = Some w'"
    by (simp_all only: run_Cons)
  have ne: "\<forall>tid. e \<noteq> CallAddReply r tid" using Cons.prems(4) by auto
  have 1: "\<not> QMap_contains (timers (step e w)) r"
    using step_unwatched [OF Cons.prems(2) en ne] .
  have 2: "\<forall>ob. replies (step e w) r = Some ob \<longrightarrow> abort_calls ob = 0"
    using step_never_aborted [OF Cons.prems(2,3) en] .
  show ?case
    using Cons.IH [OF r 1 2] Cons.prems(4) by simp
qed

subsection \<open>The claims about the supervisor\<close>

lemma reachable_consistent: "run es (NetworkTimeouts_new t) = Some w \<Longrightarrow> consistent w"
  using consistent_run [OF consistent_new] .

lemma filter_key_le1: "distinct (map fst m) \<Longrightarrow> length (filter (\<lambda>p. fst p = k) m) \<le> Suc 0"
proof (induction m)
  case Nil
  then show ?case by simp
next
  case (Cons p m)
  show ?case
  proof (cases "fst p = k")
    case True
    then have "k \<notin> fst ` set m" using Cons.prems by auto
    then have "filter (\<lambda>p. fst p = k) m = []" by (auto simp: filter_empty_conv)
    with True show ?thesis by simp
  next
    case False
    then show ?thesis using Cons by simp
  qed
qed

text \<open>A concrete run: reply \<open>1\<close> is created and registered with timer \<open>5\<close>.\<close>

lemmas supervisor_defs =
  NetworkTimeouts_new_def AddReply_def NetworkTimeouts_ReplyFinished_def timerEvent_def
  abort_def emit_def connect_def startTimer_def killTimer_def QMap_contains_def
  QMap_insert_def QMap_remove_def QMap_take_def QMap_key_def Let_def

lemma run_watching:
  "run [ReplyCreated 1, CallAddReply 1 5] (NetworkTimeouts_new 3000) = Some watching"
  by (simp add: supervisor_defs watching_def)

text \<open>
  Claim C6. In every state the supervisor can reach, \<open>AddReply\<close> on a reply that is
  already watched changes nothing: no connection is added, no timer is started, the map
  is the same. And the map holds at most one entry, so at most one timer, for each
  reply; the running timers are distinct and each belongs to an entry.
\<close>

theorem AddReply_idempotent:
  assumes "run es (NetworkTimeouts_new t) = Some w" and "QMap_contains (timers w) reply"
  shows "AddReply reply tid w = w
    \<and> (\<forall>r. length (filter (\<lambda>p. fst p = r) (timers w)) \<le> 1)
    \<and> distinct (qtimers w)
    \<and> (\<forall>x \<in> set (qtimers w). \<exists>r. (r, x) \<in> set (timers w))"
proof -
  note D = consistentD [OF reachable_consistent [OF assms(1)]]
  have "AddReply reply tid w = w" using assms(2) by (simp add: AddReply_def)
  moreover have "\<forall>r. length (filter (\<lambda>p. fst p = r) (timers w)) \<le> 1"
    using filter_key_le1 [OF D(1)] by simp
  ultimately show ?thesis using D(2) D(4) by blast
qed

theorem AddReply_idempotent_witness:
  "run [ReplyCreated 1, CallAddReply 1 5] (NetworkTimeouts_new 3000) = Some watching
   \<and> QMap_contains (timers watching) 1
   \<and> AddReply 1 6 watching = watching
   \<and> length (filter (\<lambda>p. fst p = 1) (timers watching)) \<le> 1"
proof -
  have c: "QMap_contains (timers watching) 1"
    by (simp add: QMap_contains_def watching_def)
  from AddReply_idempotent [OF run_watching c, of 6] run_watching c show ?thesis by simp
qed

text \<open>
  Claim C4. In every state the supervisor can reach, let the timer of a watched reply
  that has not finished fire. Until then \<open>abort()\<close> was never called on the reply; the
  timer event calls it once, which finishes the reply, and the notification removes the
  entry and kills the timer. Whatever happens afterwards, as long as the reply is neither
  registered again nor destroyed, its count of \<open>abort()\<close> calls stays one.
\<close>

theorem timeout_aborts_exactly_once:
  assumes "run es (NetworkTimeouts_new t) = Some w"
    and "map_of (timers w) r = Some tid"
    and "enabled w (TimerFires tid)"
    and "replies w r = Some ob" and "\<not> has_finished ob"
    and "run es' (step (TimerFires tid) w) = Some w'"
    and "\<forall>x. CallAddReply r x \<notin> set es'" and "ReplyDestroyed r \<notin> set es'"
  shows "abort_calls ob = 0
    \<and> replies (step (TimerFires tid) w) r = Some \<lparr>has_finished = True, abort_calls = 1\<rparr>
    \<and> \<not> QMap_contains (timers (step (TimerFires tid) w)) r
    \<and> tid \<notin> set (qtimers (step (TimerFires tid) w))
    \<and> replies w' r = Some \<lparr>has_finished = True, abort_calls = 1\<rparr>
    \<and> \<not> QMap_contains (timers w') r"
proof -
  have cons: "consistent w" using assms(1) by (rule reachable_consistent)
  have fires: "tid \<in> set (qtimers w)" using assms(3) by simp
  let ?w1 = "step (TimerFires tid) w"
  have eq: "timerEvent tid w = NetworkTimeouts_ReplyFinished r
       (w\<lparr>replies := (replies w)(r \<mapsto> \<lparr>has_finished = True, abort_calls = 1\<rparr>)\<rparr>)"
    using timerEvent_watched [OF cons assms(2) fires assms(4,5)] .
  have 0: "abort_calls ob = 0" using consistentD(11) [OF cons assms(4,5)] .
  have 1: "replies ?w1 r = Some \<lparr>has_finished = True, abort_calls = 1\<rparr>"
    by (simp add: eq ReplyFinished_rest)
  have 2: "\<not> QMap_contains (timers ?w1) r"
    by (simp add: eq ReplyFinished_timers QMap_contains_remove)
  have 3: "tid \<notin> set (qtimers ?w1)"
    using assms(2) by (simp add: eq ReplyFinished_qtimers)
  have 4: "replies w' r = Some \<lparr>has_finished = True, abort_calls = 1\<rparr>
     \<and> \<not> QMap_contains (timers w') r"
    using run_finished_unwatched [OF assms(6) 2 1 _ assms(7,8)] by simp
  from 0 1 2 3 4 show ?thesis by blast
qed

theorem timeout_aborts_exactly_once_witness:
  "run [ReplyCreated 1, CallAddReply 1 5] (NetworkTimeouts_new 3000) = Some watching
   \<and> map_of (timers watching) 1 = Some 5 \<and> enabled watching (TimerFires 5)
   \<and> replies watching 1 = Some \<lparr>has_finished = False, abort_calls = 0\<rparr>
   \<and> replies (step (TimerFires 5) watching) 1 = Some \<lparr>has_finished = True, abort_calls = 1\<rparr>
   \<and> run [ReplyCreated 2, CallAddReply 2 5, TimerFires 5] (step (TimerFires 5) watching)
       = Some \<lparr>timeout_msec = 3000, timers = [], qtimers = [],
            connections = [(1, SIGNAL_destroyed), (1, SIGNAL_finished),
                           (2, SIGNAL_destroyed), (2, SIGNAL_finished)],
            replies = [1 \<mapsto> \<lparr>has_finished = True, abort_calls = 1\<rparr>,
                       2 \<mapsto> \<lparr>has_finished = True, abort_calls = 1\<rparr>]\<rparr>"
proof -
  let ?w' = "\<lparr>timeout_msec = 3000, timers = [], qtimers = [],
            connections = [(1, SIGNAL_destroyed), (1, SIGNAL_finished),
                           (2, SIGNAL_destroyed), (2, SIGNAL_finished)],
            replies = [1 \<mapsto> \<lparr>has_finished = True, abort_calls = 1\<rparr>,
                       2 \<mapsto> \<lparr>has_finished = True, abort_calls = 1\<rparr>]\<rparr>"
  have m: "map_of (timers watching) 1 = Some 5" by (simp add: watching_def)
  have e: "enabled watching (TimerFires 5)" by (simp add: watching_def)
  have o: "replies watching 1 = Some \<lparr>has_finished = False, abort_calls = 0\<rparr>"
    by (simp add: watching_def)
  have f: "\<not> has_finished \<lparr>has_finished = False, abort_calls = 0\<rparr>" by simp
  have l: "run [ReplyCreated 2, CallAddReply 2 5, TimerFires 5] (step (TimerFires 5) watching)
       = Some ?w'"
    by (simp add: supervisor_defs watching_def fun_upd_twist)
  have n: "\<forall>x. CallAddReply 1 x \<notin> set [ReplyCreated 2, CallAddReply 2 5, TimerFires 5]"
    "ReplyDestroyed 1 \<notin> set [ReplyCreated 2, CallAddReply 2 5, TimerFires 5]"
    by simp_all
  from timeout_aborts_exactly_once [OF run_watching m e o f l n] run_watching m e o l
  show ?thesis by simp
qed

text \<open>
  Claim C5. In every state the supervisor can reach, let a watched reply finish by
  itself or be destroyed. At that moment its entry is removed and its timer is killed, so
  the timer cannot fire. If the reply had not finished before, \<open>abort()\<close> was never
  called on it; the notification calls none; and whatever happens afterwards, as long as
  the reply is not registered again, it stays unwatched and what lives at its address
  has no \<open>abort()\<close> call. A second notification for the reply finds no entry and changes
  nothing.
\<close>

theorem finished_before_deadline:
  assumes "run es (NetworkTimeouts_new t) = Some w"
    and "map_of (timers w) r = Some tid"
    and "e = ReplyFinishes r \<or> e = ReplyDestroyed r"
    and "enabled w e"
    and "run es' (step e w) = Some w'"
    and "\<forall>x. CallAddReply r x \<notin> set es'"
  shows "\<not> QMap_contains (timers (step e w)) r
    \<and> tid \<notin> set (qtimers (step e w))
    \<and> \<not> enabled (step e w) (TimerFires tid)
    \<and> (\<forall>ob. replies w r = Some ob \<and> \<not> has_finished ob \<longrightarrow> abort_calls ob = 0)
    \<and> (\<forall>ob. replies (step e w) r = Some ob \<longrightarrow> abort_calls ob = 0)
    \<and> (\<forall>ob. replies w' r = Some ob \<longrightarrow> abort_calls ob = 0)
    \<and> \<not> QMap_contains (timers w') r
    \<and> NetworkTimeouts_ReplyFinished r (step e w) = step e w"
proof -
  have cons: "consistent w" using assms(1) by (rule reachable_consistent)
  note D = consistentD [OF cons]
  have rt: "(r, tid) \<in> set (timers w)" using assms(2) by (rule map_of_SomeD)
  let ?w1 = "step e w"
  have "timers ?w1 = QMap_remove r (timers w)
     \<and> qtimers ?w1 = filter (\<lambda>x. x \<noteq> tid) (qtimers w)
     \<and> (\<forall>ob. replies ?w1 r = Some ob \<longrightarrow> abort_calls ob = 0)"
  proof (rule disjE [OF assms(3)])
    assume e: "e = ReplyFinishes r"
    then obtain ob where ob: "replies w r = Some ob" "\<not> has_finished ob"
      using assms(4) by (auto split: option.splits)
    have "abort_calls ob = 0" using D(11) ob by blast
    moreover have "(r, SIGNAL_finished) \<in> set (connections w)" using D(8) rt by blast
    ultimately show ?thesis using e ob assms(2)
      by (simp add: emit_eq ReplyFinished_timers ReplyFinished_qtimers ReplyFinished_rest)
  next
    assume e: "e = ReplyDestroyed r"
    have "(r, SIGNAL_destroyed) \<in> set (connections w)" using D(9) rt by blast
    then show ?thesis using e assms(2)
      by (simp add: emit_eq ReplyFinished_timers ReplyFinished_qtimers Let_def)
  qed
  then have t: "timers ?w1 = QMap_remove r (timers w)"
    and q: "qtimers ?w1 = filter (\<lambda>x. x \<noteq> tid) (qtimers w)"
    and a: "\<forall>ob. replies ?w1 r = Some ob \<longrightarrow> abort_calls ob = 0" by blast+
  have 1: "\<not> QMap_contains (timers ?w1) r" by (simp add: t QMap_contains_remove)
  have 2: "tid \<notin> set (qtimers ?w1)" by (simp add: q)
  have 3: "(\<forall>ob. replies w' r = Some ob \<longrightarrow> abort_calls ob = 0)
     \<and> \<not> QMap_contains (timers w') r"
    using run_never_aborted [OF assms(5) 1 a assms(6)] .
  have 4: "NetworkTimeouts_ReplyFinished r ?w1 = ?w1"
    using 1 by (rule ReplyFinished_absent)
  have 5: "\<forall>ob. replies w r = Some ob \<and> \<not> has_finished ob \<longrightarrow> abort_calls ob = 0"
    using D(11) by blast
  from 1 2 3 4 5 a show ?thesis by simp
qed

theorem finished_before_deadline_witness:
  "run [ReplyCreated 1, CallAddReply 1 5] (NetworkTimeouts_new 3000) = Some watching
   \<and> map_of (timers watching) 1 = Some 5 \<and> enabled watching (ReplyFinishes 1)
   \<and> \<not> enabled (step (ReplyFinishes 1) watching) (TimerFires 5)
   \<and> run [ReplyCreated 2, CallAddReply 2 5, TimerFires 5] (step (ReplyFinishes 1) watching)
       = Some \<lparr>timeout_msec = 3000, timers = [], qtimers = [],
            connections = [(1, SIGNAL_destroyed), (1, SIGNAL_finished),
                           (2, SIGNAL_destroyed), (2, SIGNAL_finished)],
            replies = [1 \<mapsto> \<lparr>has_finished = True, abort_calls = 0\<rparr>,
                       2 \<mapsto> \<lparr>has_finished = True, abort_calls = 1\<rparr>]\<rparr>"
proof -
  let ?w' = "\<lparr>timeout_msec = 3000, timers = [], qtimers = [],
            connections = [(1, SIGNAL_destroyed), (1, SIGNAL_finished),
                           (2, SIGNAL_destroyed), (2, SIGNAL_finished)],
            replies = [1 \<mapsto> \<lparr>has_finished = True, abort_calls = 0\<rparr>,
                       2 \<mapsto> \<lparr>has_finished = True, abort_calls = 1\<rparr>]\<rparr>"
  have m: "map_of (timers watching) 1 = Some 5" by (simp add: watching_def)
  have e: "enabled watching (ReplyFinishes 1)" by (simp add: watching_def)
  have l: "run [ReplyCreated 2, CallAddReply 2 5, TimerFires 5] (step (ReplyFinishes 1) watching)
       = Some ?w'"
    by (simp add: supervisor_defs watching_def fun_upd_twist)
  have n: "\<forall>x. CallAddReply 1 x \<notin> set [ReplyCreated 2, CallAddReply 2 5, TimerFires 5]"
    by simp
  from finished_before_deadline [OF run_watching m _ e l n] run_watching m e l
  show ?thesis by simp
qed

section \<open>The redirect follower\<close>

subsection \<open>The heap and the slot\<close>

lemma deref_store: "deref h p = Some r \<Longrightarrow> deref (store p r' h) p = Some r'"
  by (auto simp: deref_def store_def split: if_splits)

lemma length_store: "length (store p r h) = length h"
  by (simp add: store_def)

lemma deref_append_new: "deref (h @ [r]) (Suc (length h)) = Some r"
  by (simp add: deref_def)

lemma get_fst: "fst (QNetworkAccessManager_get qt m req w) = Suc (length (heap w))"
  by (simp add: QNetworkAccessManager_get_def Let_def)

lemma get_snd:
  "snd (QNetworkAccessManager_get qt m req w)
       = w\<lparr>heap := heap w @ [virtual_createRequest qt m GetOperation req 0],
           get_calls := get_calls w @ [(m, req)]\<rparr>"
  by (simp add: QNetworkAccessManager_get_def Let_def)

lemma virtual_createRequest_fields:
  "\<not> isFinished (virtual_createRequest qt m op req data)"
  "operation (virtual_createRequest qt m op req data) = op"
  "manager (virtual_createRequest qt m op req data) = m"
  "outgoingData (virtual_createRequest qt m op req data) = data"
  "reply_attributes (virtual_createRequest qt m op req data) = (\<lambda>a. Invalid)"
  by (cases "class_of qt m";
      simp add: virtual_createRequest_def createRequest_def QNetworkAccessManager_createRequest_def)+

text \<open>The slot on a redirect response with budget left.\<close>

lemma ReplyFinished_follow:
  assumes "deref (heap w) (current_reply w) = Some cur"
    and "isValid (reply_attributes cur RedirectionTargetAttribute)"
    and "redirects_remaining w \<noteq> 0"
  shows "RedirectFollower_ReplyFinished qt w =
      w\<lparr>heap := store (current_reply w) (cur\<lparr>deleteLater := True\<rparr>) (heap w)
                 @ [virtual_createRequest qt (manager cur) GetOperation (next_request qt cur) 0],
        redirects_remaining := redirects_remaining w - 1,
        get_calls := get_calls w @ [(manager cur, next_request qt cur)],
        current_reply := Suc (length (heap w)),
        connected := connected w @ [Suc (length (heap w))]\<rparr>"
  using assms
  by (simp add: RedirectFollower_ReplyFinished_def Let_def split_beta get_fst get_snd
      length_store ConnectReply_def next_request_def)

lemma ReplyFinished_exhausted:
  assumes "deref (heap w) (current_reply w) = Some cur"
    and "isValid (reply_attributes cur RedirectionTargetAttribute)"
    and "redirects_remaining w = 0"
  shows "RedirectFollower_ReplyFinished qt w =
      w\<lparr>heap := store (current_reply w) (cur\<lparr>deleteLater := True\<rparr>) (heap w),
        redirects_remaining := - 1,
        finished_emitted := Suc (finished_emitted w)\<rparr>"
  using assms by (simp add: RedirectFollower_ReplyFinished_def Let_def emit_finished_def)

lemma ReplyFinished_final:
  assumes "deref (heap w) (current_reply w) = Some cur"
    and "\<not> isValid (reply_attributes cur RedirectionTargetAttribute)"
  shows "RedirectFollower_ReplyFinished qt w =
      w\<lparr>heap := store (current_reply w) (cur\<lparr>deleteLater := True\<rparr>) (heap w),
        finished_emitted := Suc (finished_emitted w)\<rparr>"
  using assms by (simp add: RedirectFollower_ReplyFinished_def Let_def emit_finished_def)

subsection \<open>One response\<close>

lemma is_running_iff: "is_running w p \<longleftrightarrow> (\<exists>r. deref (heap w) p = Some r \<and> \<not> isFinished r)"
  by (auto simp: is_running_def split: option.splits)

lemma deref_valid: "deref h p = Some r \<Longrightarrow> 0 < p \<and> p \<le> length h"
  by (auto simp: deref_def split: if_splits)

text \<open>The response reaches the current reply and the slot runs once.\<close>

lemma reply_finishes_current:
  assumes "ready w" and "deref (heap w) (current_reply w) = Some r"
  shows "reply_finishes qt (current_reply w) response w =
     RedirectFollower_ReplyFinished qt
       (w\<lparr>heap := store (current_reply w)
                     (r\<lparr>reply_attributes := response, isFinished := True\<rparr>) (heap w)\<rparr>)"
  using assms by (simp add: reply_finishes_def ready_def)

lemma store_store: "store p r (store p r' h) = store p r h"
  by (simp add: store_def)

lemma respond_redirect_follow:
  assumes "ready w" and "deref (heap w) (current_reply w) = Some r"
    and "isValid (response RedirectionTargetAttribute)" and "redirects_remaining w \<noteq> 0"
  shows "reply_finishes qt (current_reply w) response w =
      w\<lparr>heap := store (current_reply w) (answered response r) (heap w)
                 @ [virtual_createRequest qt (manager r) GetOperation
                      (next_request qt (r\<lparr>reply_attributes := response\<rparr>)) 0],
        redirects_remaining := redirects_remaining w - 1,
        get_calls := get_calls w @ [(manager r, next_request qt (r\<lparr>reply_attributes := response\<rparr>))],
        current_reply := Suc (length (heap w)),
        connected := connected w @ [Suc (length (heap w))]\<rparr>"
proof -
  let ?cur = "r\<lparr>reply_attributes := response, isFinished := True\<rparr>"
  let ?w0 = "w\<lparr>heap := store (current_reply w) ?cur (heap w)\<rparr>"
  have d: "deref (heap ?w0) (current_reply ?w0) = Some ?cur"
    using assms(2) by (simp add: deref_store)
  have n: "next_request qt ?cur = next_request qt (r\<lparr>reply_attributes := response\<rparr>)"
    by (simp add: next_request_def)
  show ?thesis
    unfolding reply_finishes_current [OF assms(1,2)]
    using ReplyFinished_follow [OF d, of qt] assms(3,4)
    by (simp add: store_store length_store answered_def n)
qed

lemma respond_redirect_exhausted:
  assumes "ready w" and "deref (heap w) (current_reply w) = Some r"
    and "isValid (response RedirectionTargetAttribute)" and "redirects_remaining w = 0"
  shows "reply_finishes qt (current_reply w) response w =
      w\<lparr>heap := store (current_reply w) (answered response r) (heap w),
        redirects_remaining := - 1,
        finished_emitted := Suc (finished_emitted w)\<rparr>"
proof -
  let ?cur = "r\<lparr>reply_attributes := response, isFinished := True\<rparr>"
  let ?w0 = "w\<lparr>heap := store (current_reply w) ?cur (heap w)\<rparr>"
  have d: "deref (heap ?w0) (current_reply ?w0) = Some ?cur"
    using assms(2) by (simp add: deref_store)
  show ?thesis
    unfolding reply_finishes_current [OF assms(1,2)]
    using ReplyFinished_exhausted [OF d, of qt] assms(3,4)
    by (simp add: store_store answered_def)
qed

lemma respond_final:
  assumes "ready w" and "deref (heap w) (current_reply w) = Some r"
    and "\<not> isValid (response RedirectionTargetAttribute)"
  shows "reply_finishes qt (current_reply w) response w =
      w\<lparr>heap := store (current_reply w) (answered response r) (heap w),
        finished_emitted := Suc (finished_emitted w)\<rparr>"
proof -
  let ?cur = "r\<lparr>reply_attributes := response, isFinished := True\<rparr>"
  let ?w0 = "w\<lparr>heap := store (current_reply w) ?cur (heap w)\<rparr>"
  have d: "deref (heap ?w0) (current_reply ?w0) = Some ?cur"
    using assms(2) by (simp add: deref_store)
  show ?thesis
    unfolding reply_finishes_current [OF assms(1,2)]
    using ReplyFinished_final [OF d, of qt] assms(3)
    by (simp add: store_store answered_def)
qed

text \<open>A terminal response: the follower emits \<open>finished()\<close> and asks for nothing more.\<close>

lemma respond_stops:
  assumes "ready w"
    and "\<not> isValid (response RedirectionTargetAttribute) \<or> redirects_remaining w = 0"
  shows "get_calls (respond qt (response # rest) w) = get_calls w
     \<and> finished_emitted (respond qt (response # rest) w) = Suc (finished_emitted w)"
proof -
  obtain r where r: "deref (heap w) (current_reply w) = Some r" "\<not> isFinished r"
    using assms(1) by (auto simp: ready_def is_running_iff)
  have run: "is_running w (current_reply w)" using assms(1) by (simp add: ready_def)
  let ?w1 = "reply_finishes qt (current_reply w) response w"
  have "heap ?w1 = store (current_reply w) (answered response r) (heap w)
     \<and> current_reply ?w1 = current_reply w \<and> get_calls ?w1 = get_calls w
     \<and> finished_emitted ?w1 = Suc (finished_emitted w)"
  proof (cases "isValid (response RedirectionTargetAttribute)")
    case True
    then have "redirects_remaining w = 0" using assms(2) by simp
    then show ?thesis
      using respond_redirect_exhausted [OF assms(1) r(1), where response = response and qt = qt]
        True by simp
  next
    case False
    then show ?thesis
      using respond_final [OF assms(1) r(1), where response = response and qt = qt] by simp
  qed
  moreover from this have "\<not> is_running ?w1 (current_reply ?w1)"
    using r(1) by (simp add: is_running_def deref_store answered_def)
  ultimately show ?thesis using run
    by (cases rest) simp_all
qed

lemma ready_follow:
  assumes "ready w" and "deref (heap w) (current_reply w) = Some r"
    and "isValid (response RedirectionTargetAttribute)" and "redirects_remaining w \<noteq> 0"
  shows "ready (reply_finishes qt (current_reply w) response w)"
proof -
  have le: "\<forall>c \<in> set (connected w). c \<le> length (heap w)" using assms(1) by (simp add: ready_def)
  then have "filter (\<lambda>c. c = Suc (length (heap w))) (connected w) = []"
    by (auto simp: filter_empty_conv)
  have eq: "reply_finishes qt (current_reply w) response w =
      w\<lparr>heap := store (current_reply w) (answered response r) (heap w)
                 @ [virtual_createRequest qt (manager r) GetOperation
                      (next_request qt (r\<lparr>reply_attributes := response\<rparr>)) 0],
        redirects_remaining := redirects_remaining w - 1,
        get_calls := get_calls w @ [(manager r, next_request qt (r\<lparr>reply_attributes := response\<rparr>))],
        current_reply := Suc (length (heap w)),
        connected := connected w @ [Suc (length (heap w))]\<rparr>"
    using respond_redirect_follow [OF assms(1,2), where response = response and qt = qt]
      assms(3,4) by blast
  from \<open>filter (\<lambda>c. c = Suc (length (heap w))) (connected w) = []\<close> show ?thesis
    unfolding eq
    using le
    by (auto simp: ready_def is_running_def length_store virtual_createRequest_fields
        deref_def nth_append)
qed

subsection \<open>A chain of redirects\<close>

lemma respond_chain:
  assumes "ready w" and "redirects_remaining w = int k" and "length rs = Suc k"
    and "\<forall>r \<in> set rs. isValid (r RedirectionTargetAttribute)"
  shows "length (get_calls (respond qt (rs @ rest) w)) = length (get_calls w) + k
     \<and> finished_emitted (respond qt (rs @ rest) w) = Suc (finished_emitted w)"
  using assms
proof (induction k arbitrary: w rs)
  case 0
  then obtain r where rs: "rs = [r]" by (cases rs) auto
  show ?case
    using respond_stops [OF "0.prems"(1), where response = r and qt = qt and rest = rest]
      "0.prems"(2) rs by simp
next
  case (Suc k)
  then obtain r rs' where rs: "rs = r # rs'" "length rs' = Suc k" by (cases rs) auto
  obtain cur where cur: "deref (heap w) (current_reply w) = Some cur"
    using Suc.prems(1) by (auto simp: ready_def is_running_iff)
  have run: "is_running w (current_reply w)" using Suc.prems(1) by (simp add: ready_def)
  have red: "isValid (r RedirectionTargetAttribute)" using Suc.prems(4) rs by simp
  have ne: "redirects_remaining w \<noteq> 0" using Suc.prems(2) by simp
  let ?w1 = "reply_finishes qt (current_reply w) r w"
  have 1: "ready ?w1"
    using ready_follow [OF Suc.prems(1) cur, where response = r and qt = qt] red ne by blast
  have eq: "?w1 =
      w\<lparr>heap := store (current_reply w) (answered r cur) (heap w)
                 @ [virtual_createRequest qt (manager cur) GetOperation
                      (next_request qt (cur\<lparr>reply_attributes := r\<rparr>)) 0],
        redirects_remaining := redirects_remaining w - 1,
        get_calls := get_calls w @ [(manager cur, next_request qt (cur\<lparr>reply_attributes := r\<rparr>))],
        current_reply := Suc (length (heap w)),
        connected := connected w @ [Suc (length (heap w))]\<rparr>"
    using respond_redirect_follow [OF Suc.prems(1) cur, where response = r and qt = qt]
      red ne by blast
  have 2: "redirects_remaining ?w1 = int k"
    unfolding eq using Suc.prems(2) by simp
  have 3: "length (get_calls ?w1) = Suc (length (get_calls w))"
    "finished_emitted ?w1 = finished_emitted w"
    unfolding eq by simp_all
  have 4: "\<forall>r \<in> set rs'. isValid (r RedirectionTargetAttribute)" using Suc.prems(4) rs by simp
  have "respond qt (rs @ rest) w = respond qt (rs' @ rest) ?w1"
    using rs run by simp
  then show ?case using Suc.IH [OF 1 2 rs(2) 4] 3 by simp
qed

lemma ready_new:
  assumes "deref h first = Some r" and "\<not> isFinished r"
  shows "ready (RedirectFollower_new first N h)"
  using assms deref_valid [OF assms(1)]
  by (simp add: ready_def RedirectFollower_new_def ConnectReply_def is_running_def)

subsection \<open>The claims about the follower\<close>

text \<open>
  Claim C2. Let the budget \<open>N\<close> be at least \<open>0\<close> and the first reply be running. When
  the chain's responses are \<open>N + 1\<close> redirects followed by whatever else (the claim's
  response without a redirect target included), the chain has \<open>N + 1\<close> physical requests,
  the original one and \<open>N\<close> \<open>get\<close> calls, and the follower emits \<open>finished()\<close> once.
  With a budget of \<open>0\<close> the chain has one request and one \<open>finished()\<close>, whatever the
  first response is.
\<close>

theorem redirect_budget:
  assumes "0 \<le> N" and "deref h first_reply = Some r" and "\<not> isFinished r"
    and "length rs = nat N + 1" and "\<forall>x \<in> set rs. isValid (x RedirectionTargetAttribute)"
  shows "requests_sent (respond qt (rs @ rest) (RedirectFollower_new first_reply N h))
           = nat N + 1
     \<and> length (get_calls (respond qt (rs @ rest) (RedirectFollower_new first_reply N h)))
           = nat N
     \<and> finished_emitted (respond qt (rs @ rest) (RedirectFollower_new first_reply N h)) = 1
     \<and> requests_sent (respond qt (x # rest) (RedirectFollower_new first_reply 0 h)) = 1
     \<and> finished_emitted (respond qt (x # rest) (RedirectFollower_new first_reply 0 h)) = 1"
proof -
  let ?w = "RedirectFollower_new first_reply N h"
  have rdy: "ready (RedirectFollower_new first_reply M h)" for M
    using assms(2,3) by (rule ready_new)
  have init: "redirects_remaining ?w = int (nat N)" "get_calls ?w = []" "finished_emitted ?w = 0"
    using assms(1) by (simp_all add: RedirectFollower_new_def ConnectReply_def)
  have len: "length rs = Suc (nat N)" using assms(4) by simp
  have a: "length (get_calls (respond qt (rs @ rest) ?w)) = nat N
     \<and> finished_emitted (respond qt (rs @ rest) ?w) = 1"
    using respond_chain [OF rdy init(1) len, where qt = qt and rest = rest] assms(5) init(2,3)
    by simp
  let ?z = "RedirectFollower_new first_reply 0 h"
  have z: "redirects_remaining ?z = 0" "get_calls ?z = []" "finished_emitted ?z = 0"
    by (simp_all add: RedirectFollower_new_def ConnectReply_def)
  have b: "get_calls (respond qt (x # rest) ?z) = []
     \<and> finished_emitted (respond qt (x # rest) ?z) = 1"
    using respond_stops [OF rdy, where response = x and qt = qt and rest = rest and M1 = 0] z
    by simp
  from a b show ?thesis by (simp add: requests_sent_def)
qed

theorem redirect_budget_witness:
  "(0::int) \<le> 1 \<and> deref [running_get] 1 = Some running_get \<and> \<not> isFinished running_get
   \<and> length [redirect_to ''http://a/c'', redirect_to ''http://a/d''] = nat 1 + 1
   \<and> isValid (redirect_to ''http://a/c'' RedirectionTargetAttribute)
   \<and> isValid (redirect_to ''http://a/d'' RedirectionTargetAttribute)
   \<and> \<not> isValid (no_redirect RedirectionTargetAttribute)
   \<and> requests_sent (respond example_qt
         ([redirect_to ''http://a/c'', redirect_to ''http://a/d''] @ [no_redirect])
         (RedirectFollower_new 1 1 [running_get])) = 2
   \<and> finished_emitted (respond example_qt
         ([redirect_to ''http://a/c'', redirect_to ''http://a/d''] @ [no_redirect])
         (RedirectFollower_new 1 1 [running_get])) = 1"
proof -
  have d: "deref [running_get] 1 = Some running_get" by (simp add: deref_def)
  have f: "\<not> isFinished running_get"
    by (simp add: running_get_def QNetworkAccessManager_createRequest_def)
  have l: "length [redirect_to ''http://a/c'', redirect_to ''http://a/d''] = nat 1 + 1" by simp
  have v: "\<forall>x \<in> set [redirect_to ''http://a/c'', redirect_to ''http://a/d''].
      isValid (x RedirectionTargetAttribute)"
    by (simp add: redirect_to_def)
  have n: "\<not> isValid (no_redirect RedirectionTargetAttribute)" by (simp add: no_redirect_def)
  have z: "(0::int) \<le> 1" by simp
  from redirect_budget [OF z d f l v, where qt = example_qt and rest = "[no_redirect]"] d f l v n
  show ?thesis by simp
qed

text \<open>
  Claim C3, as amended. The claim says that the new request keeps the method and the body
  of the original. The code issues every follow-up with \<open>get\<close>. Amended: when the
  follower follows a redirect, it calls \<open>get\<close> on the manager of the current reply with a
  copy of the current reply's request in which only the URL is replaced, the headers and
  attributes being those of that request, and the new URL being the redirect target
  resolved against the current reply's URL; the new reply becomes the current one, and
  its operation is GET with no outgoing data, whatever the operation of the current
  reply was.
\<close>

theorem redirect_hop:
  assumes "deref (heap w) (current_reply w) = Some cur"
    and "isValid (reply_attributes cur RedirectionTargetAttribute)"
    and "redirects_remaining w \<noteq> 0"
    and "req = (request cur)\<lparr>url := resolved qt (reply_url cur)
                 (toUrl (reply_attributes cur RedirectionTargetAttribute))\<rparr>"
  shows "get_calls (RedirectFollower_ReplyFinished qt w) = get_calls w @ [(manager cur, req)]
    \<and> rawHeaders req = rawHeaders (request cur) \<and> attributes req = attributes (request cur)
    \<and> current_reply (RedirectFollower_ReplyFinished qt w) = Suc (length (heap w))
    \<and> deref (heap (RedirectFollower_ReplyFinished qt w)) (Suc (length (heap w)))
         = Some (virtual_createRequest qt (manager cur) GetOperation req 0)
    \<and> operation (virtual_createRequest qt (manager cur) GetOperation req 0) = GetOperation
    \<and> outgoingData (virtual_createRequest qt (manager cur) GetOperation req 0) = 0
    \<and> manager (virtual_createRequest qt (manager cur) GetOperation req 0) = manager cur"
proof -
  have n: "next_request qt cur = req" by (simp add: next_request_def setUrl_def assms(4))
  have "deref (store (current_reply w) (cur\<lparr>deleteLater := True\<rparr>) (heap w)
          @ [virtual_createRequest qt (manager cur) GetOperation req 0])
        (Suc (length (heap w)))
      = Some (virtual_createRequest qt (manager cur) GetOperation req 0)"
    using deref_append_new [of "store (current_reply w) (cur\<lparr>deleteLater := True\<rparr>) (heap w)"]
    by (simp add: length_store)
  then show ?thesis
    unfolding ReplyFinished_follow [OF assms(1), where qt = qt, OF assms(2,3)] n
    by (simp add: virtual_createRequest_fields assms(4))
qed

theorem redirect_hop_witness:
  "deref [redirected_post] 1 = Some redirected_post
   \<and> isValid (reply_attributes redirected_post RedirectionTargetAttribute)
   \<and> get_calls (RedirectFollower_ReplyFinished example_qt (RedirectFollower_new 1 1 [redirected_post]))
       = [(1, plain_request\<lparr>url := ''http://a/c''\<rparr>)]
   \<and> current_reply (RedirectFollower_ReplyFinished example_qt (RedirectFollower_new 1 1 [redirected_post]))
       = 2"
proof -
  let ?w = "RedirectFollower_new 1 1 [redirected_post]"
  have d: "deref (heap ?w) (current_reply ?w) = Some redirected_post"
    by (simp add: deref_def RedirectFollower_new_def ConnectReply_def)
  have v: "isValid (reply_attributes redirected_post RedirectionTargetAttribute)"
    by (simp add: redirected_post_def redirect_to_def)
  have r: "redirects_remaining ?w \<noteq> 0" by (simp add: RedirectFollower_new_def ConnectReply_def)
  have q: "plain_request\<lparr>url := ''http://a/c''\<rparr> = (request redirected_post)\<lparr>url := resolved example_qt (reply_url redirected_post)
                 (toUrl (reply_attributes redirected_post RedirectionTargetAttribute))\<rparr>"
    by (simp add: redirected_post_def redirect_to_def example_qt_def
        QNetworkAccessManager_createRequest_def)
  have m: "manager redirected_post = 1" "length (heap ?w) = 1"
    by (simp_all add: redirected_post_def QNetworkAccessManager_createRequest_def
        RedirectFollower_new_def ConnectReply_def)
  from redirect_hop [OF d v r q] d v m show ?thesis
    by (simp add: RedirectFollower_new_def ConnectReply_def)
qed

text \<open>
  Claim C3 as stated fails: the reply of a POST with outgoing data is answered with a
  redirect, and the follow-up is a GET with no outgoing data.
\<close>

theorem redirect_hop_method_counterexample:
  "operation redirected_post = PostOperation \<and> outgoingData redirected_post = 7
   \<and> map_option operation
        (deref (heap (RedirectFollower_ReplyFinished example_qt
                        (RedirectFollower_new 1 1 [redirected_post])))
           (current_reply (RedirectFollower_ReplyFinished example_qt
                        (RedirectFollower_new 1 1 [redirected_post]))))
       = Some GetOperation
   \<and> map_option outgoingData
        (deref (heap (RedirectFollower_ReplyFinished example_qt
                        (RedirectFollower_new 1 1 [redirected_post])))
           (current_reply (RedirectFollower_ReplyFinished example_qt
                        (RedirectFollower_new 1 1 [redirected_post]))))
       = Some 0"
  by (simp add: RedirectFollower_ReplyFinished_def RedirectFollower_new_def ConnectReply_def
      deref_def store_def redirected_post_def redirect_to_def example_qt_def
      QNetworkAccessManager_createRequest_def QNetworkAccessManager_get_def
      virtual_createRequest_def createRequest_def Let_def)

end
